theory Spec2Isabelle
  imports Main "HOL-Library.Word" "HOL-Library.Multiset" "HOL-Library.List_Lexorder"
begin

unbundle bit_operations_syntax

chapter \<open>Kudu: consensus metadata and the rowset tree\<close>

text \<open>
  A shallow embedding of \<^verbatim>\<open>src/kudu/consensus/consensus_meta.cc\<close> and
  \<^verbatim>\<open>src/tablet/rowset_tree.cc\<close>. Every fatal exit of the C++ code
  (\<^verbatim>\<open>LOG(FATAL)\<close>, \<^verbatim>\<open>CHECK\<close>, \<^verbatim>\<open>DCHECK\<close> in a debug build, the
  fault-injection hook) is a value \<open>Inl f\<close> of the result type \<open>fatal + 'a\<close>; a normal
  return is \<open>Inr v\<close>. Mutation of an object is state passing: a member function takes
  the object and returns the updated object. The model is sequential: the debug-only
  guard \<^verbatim>\<open>DFAKE_SCOPED_RECURSIVE_LOCK\<close>, which asserts that no two threads are inside the
  object at once, has no counterpart, and log lines are not modelled.
\<close>

section \<open>Machine integers, fatal exits, Status\<close>

text \<open>
  \<^verbatim>\<open>uint64_t\<close> and \<^verbatim>\<open>int64_t\<close> are both 64-bit words: the conversions between them
  that the code performs (\<^verbatim>\<open>term & kRoleMask\<close>, \<^verbatim>\<open>term = kTermMask\<close>,
  \<^verbatim>\<open>static_cast<int64_t>(t)\<close>) keep the bit pattern. A value of type \<^verbatim>\<open>int64_t\<close>
  is read with \<open>sint\<close> and compared with \<open>\<le>s\<close> and \<open><s\<close>.
\<close>

type_synonym uint64_t = "64 word"
type_synonym int64_t = "64 word"

datatype fatal =
    LogFatal string
  | CheckFailed string
  | DCheckFailed string
  | FaultInjected
  | NullDereference
  | UseAfterFree

definition and_then :: "fatal + 'a \<Rightarrow> ('a \<Rightarrow> fatal + 'b) \<Rightarrow> fatal + 'b" where
  "and_then m f = (case m of Inl e \<Rightarrow> Inl e | Inr v \<Rightarrow> f v)"

definition CHECK :: "bool \<Rightarrow> string \<Rightarrow> fatal + unit" where
  "CHECK c msg = (if c then Inr () else Inl (CheckFailed msg))"

text \<open>\<^verbatim>\<open>DCHECK\<close> is compiled in only in a debug build: \<open>dbg\<close> says whether it is.\<close>

definition DCHECK :: "bool \<Rightarrow> bool \<Rightarrow> string \<Rightarrow> fatal + unit" where
  "DCHECK dbg c msg = (if dbg \<and> \<not> c then Inl (DCheckFailed msg) else Inr ())"

text \<open>
  Modelled from the spec: \<^verbatim>\<open>kudu::Status\<close> (\<^verbatim>\<open>util/status.h\<close> is not among the
  sources). A status is OK or an error kind with a message; the kinds are those of the
  spec's error handling design. \<^verbatim>\<open>RETURN_NOT_OK_PREPEND(s, msg)\<close> returns, when \<open>s\<close>
  is not OK, \<open>s\<close> with \<open>msg\<close> and a separator put before its message.
\<close>

datatype StatusCode =
    AlreadyPresent | InvalidArgument | Corruption | IOError | NotSupported | NotFound
  | RuntimeError

datatype Status = OK | Error StatusCode string

definition ok :: "Status \<Rightarrow> bool" where
  "ok s = (s = OK)"

fun IsNotSupported :: "Status \<Rightarrow> bool" where
  "IsNotSupported (Error NotSupported m) = True"
| "IsNotSupported s = False"

fun message :: "Status \<Rightarrow> string" where
  "message OK = []"
| "message (Error c m) = m"

fun CloneAndPrepend :: "string \<Rightarrow> Status \<Rightarrow> Status" where
  "CloneAndPrepend msg OK = OK"
| "CloneAndPrepend msg (Error c m) = Error c (msg @ '': '' @ m)"

section \<open>The packed role and term\<close>

text \<open>
  Modelled from the spec: the enum \<^verbatim>\<open>RaftPeerPB::Role\<close> (\<^verbatim>\<open>metadata.pb.h\<close> is not
  among the sources). A role is the integer value of the enum constant, as
  \<^verbatim>\<open>static_cast<uint64_t>(role)\<close> reads it. The values 0..6 are those of the defined
  roles; \<^verbatim>\<open>UNKNOWN_ROLE\<close> is the constant 999 that the comment in
  \<^verbatim>\<open>PackRoleAndTerm\<close> names.
\<close>

type_synonym Role = int

definition UNKNOWN_ROLE :: Role where
  "UNKNOWN_ROLE = 999"

definition known_roles :: "Role set" where
  "known_roles = {0..6}"

definition kPackedRoleBits :: nat where
  "kPackedRoleBits = 3"

definition kPackedTermBits :: nat where
  "kPackedTermBits = 8 * 8 - kPackedRoleBits"

definition kUnknownRolePacked :: uint64_t where
  "kUnknownRolePacked = push_bit kPackedRoleBits 1 - 1"

definition kRoleMask :: uint64_t where
  "kRoleMask = push_bit kPackedTermBits kUnknownRolePacked"

definition kTermMask :: uint64_t where
  "kTermMask = NOT kRoleMask"

definition PackRoleAndTerm :: "Role \<Rightarrow> int64_t \<Rightarrow> uint64_t" where
  "PackRoleAndTerm role term =
     (let term' = (if term AND kRoleMask \<noteq> 0 then kTermMask else term);
          r = (if role = UNKNOWN_ROLE then kUnknownRolePacked else word_of_int role)
      in push_bit kPackedTermBits r OR term')"

definition UnpackRole :: "uint64_t \<Rightarrow> Role" where
  "UnpackRole role_and_term_packed =
     (let role = drop_bit kPackedTermBits role_and_term_packed
      in if role = kUnknownRolePacked then UNKNOWN_ROLE else uint role)"

definition UnpackTerm :: "uint64_t \<Rightarrow> fatal + int64_t" where
  "UnpackTerm role_and_term_packed =
     (let t = role_and_term_packed AND kTermMask
      in if t = kTermMask then Inl (LogFatal ''packed term is invalid'') else Inr t)"

section \<open>ConsensusMetadata\<close>

text \<open>
  Modelled from the spec: the protobuf messages of \<^verbatim>\<open>metadata.pb.h\<close>, which is not
  among the sources. A Raft configuration is a list of peers with a member type, plus an
  optional \<^verbatim>\<open>opid_index\<close>. An optional field of a message is an \<open>option\<close>:
  \<^verbatim>\<open>has_x()\<close> says whether it is set, the getter \<^verbatim>\<open>x()\<close> returns its value or, when it
  is not set, the default of its type (0, the empty string, the empty message).
\<close>

datatype MemberType = VOTER | NON_VOTER | LEARNER | UNKNOWN_MEMBER_TYPE

record RaftPeerPB =
  permanent_uuid :: string
  member_type :: MemberType

record RaftConfigPB =
  opid_index :: "int64_t option"
  peers :: "RaftPeerPB list"

definition RaftConfigPB_default :: RaftConfigPB where
  "RaftConfigPB_default = \<lparr>opid_index = None, peers = []\<rparr>"

record ConsensusMetadataPB =
  pb_committed_config :: "RaftConfigPB option"
  pb_current_term :: "int64_t option"
  pb_voted_for :: "string option"

definition ConsensusMetadataPB_default :: ConsensusMetadataPB where
  "ConsensusMetadataPB_default =
     \<lparr>pb_committed_config = None, pb_current_term = None, pb_voted_for = None\<rparr>"

record ConsensusStatePB =
  cs_current_term :: "int64_t option"
  cs_leader_uuid :: "string option"
  cs_committed_config :: "RaftConfigPB option"
  cs_pending_config :: "RaftConfigPB option"

definition get_int64 :: "int64_t option \<Rightarrow> int64_t" where
  "get_int64 f = (case f of None \<Rightarrow> 0 | Some v \<Rightarrow> v)"

definition get_string :: "string option \<Rightarrow> string" where
  "get_string f = (case f of None \<Rightarrow> [] | Some v \<Rightarrow> v)"

definition get_config :: "RaftConfigPB option \<Rightarrow> RaftConfigPB" where
  "get_config f = (case f of None \<Rightarrow> RaftConfigPB_default | Some v \<Rightarrow> v)"

definition has :: "'a option \<Rightarrow> bool" where
  "has f = (f \<noteq> None)"

text \<open>
  Modelled from the spec: \<^verbatim>\<open>kMinimumTerm\<close> (\<^verbatim>\<open>opid_util.h\<close> is not among the
  sources): the minimum term, 0.
\<close>

definition kMinimumTerm :: int64_t where
  "kMinimumTerm = 0"

text \<open>
  What the code takes from its surroundings: whether \<^verbatim>\<open>DCHECK\<close> is compiled in,
  whether verbose logging at level 1 is on, and the two Raft helpers of
  \<^verbatim>\<open>quorum_util.h\<close>, which are parameters here.
\<close>

record Globals =
  DCHECK_IS_ON :: bool
  VLOG_IS_ON_1 :: bool
  GetConsensusRole :: "string \<Rightarrow> string \<Rightarrow> RaftConfigPB \<Rightarrow> Role"
  VerifyRaftConfig :: "RaftConfigPB \<Rightarrow> Status"

text \<open>
  Modelled from the spec: \<^verbatim>\<open>FsManager\<close> (\<^verbatim>\<open>fs_manager.h\<close> is not among the
  sources): the consensus-metadata directory, and whether it is on XFS. The file of a
  tablet is \<^verbatim>\<open><dir>/<tablet_id>\<close>.
\<close>

record FsManager =
  GetConsensusMetadataDir :: string
  meta_on_xfs :: bool

definition GetConsensusMetadataPath :: "FsManager \<Rightarrow> string \<Rightarrow> string" where
  "GetConsensusMetadataPath fs_manager tablet_id =
     GetConsensusMetadataDir fs_manager @ ''/'' @ tablet_id"

text \<open>The member \<^verbatim>\<open>x_\<close> of the class is the field \<open>m_x\<close>.\<close>

record ConsensusMetadata =
  m_fs_manager :: FsManager
  m_tablet_id :: string
  m_peer_uuid :: string
  m_pb :: ConsensusMetadataPB
  m_has_pending_config :: bool
  m_pending_config :: RaftConfigPB
  m_leader_uuid :: string
  m_active_role :: Role
  m_role_and_term_cache :: uint64_t
  m_flush_count_for_tests :: int64_t
  m_on_disk_size :: uint64_t

datatype RaftConfigState = ACTIVE_CONFIG | COMMITTED_CONFIG | PENDING_CONFIG

definition current_term :: "Globals \<Rightarrow> ConsensusMetadata \<Rightarrow> fatal + int64_t" where
  "current_term G cm =
     and_then (DCHECK (DCHECK_IS_ON G) (has (pb_current_term (m_pb cm))) ''pb_.has_current_term()'')
       (\<lambda>_. Inr (get_int64 (pb_current_term (m_pb cm))))"

definition UpdateRoleAndTermCache :: "Globals \<Rightarrow> ConsensusMetadata \<Rightarrow> fatal + ConsensusMetadata" where
  "UpdateRoleAndTermCache G cm =
     and_then (if has (pb_current_term (m_pb cm)) then current_term G cm else Inr (- 1))
       (\<lambda>t. Inr (cm\<lparr>m_role_and_term_cache := PackRoleAndTerm (m_active_role cm) t\<rparr>))"

definition set_current_term :: "Globals \<Rightarrow> int64_t \<Rightarrow> ConsensusMetadata \<Rightarrow> fatal + ConsensusMetadata" where
  "set_current_term G term cm =
     and_then (DCHECK (DCHECK_IS_ON G) (kMinimumTerm \<le>s term) ''term >= kMinimumTerm'')
       (\<lambda>_. UpdateRoleAndTermCache G (cm\<lparr>m_pb := (m_pb cm)\<lparr>pb_current_term := Some term\<rparr>\<rparr>))"

definition has_voted_for :: "ConsensusMetadata \<Rightarrow> bool" where
  "has_voted_for cm = has (pb_voted_for (m_pb cm))"

definition voted_for :: "Globals \<Rightarrow> ConsensusMetadata \<Rightarrow> fatal + string" where
  "voted_for G cm =
     and_then (DCHECK (DCHECK_IS_ON G) (has (pb_voted_for (m_pb cm))) ''pb_.has_voted_for()'')
       (\<lambda>_. Inr (get_string (pb_voted_for (m_pb cm))))"

definition clear_voted_for :: "ConsensusMetadata \<Rightarrow> ConsensusMetadata" where
  "clear_voted_for cm = cm\<lparr>m_pb := (m_pb cm)\<lparr>pb_voted_for := None\<rparr>\<rparr>"

definition set_voted_for :: "Globals \<Rightarrow> string \<Rightarrow> ConsensusMetadata \<Rightarrow> fatal + ConsensusMetadata" where
  "set_voted_for G uuid cm =
     and_then (DCHECK (DCHECK_IS_ON G) (uuid \<noteq> []) ''!uuid.empty()'')
       (\<lambda>_. Inr (cm\<lparr>m_pb := (m_pb cm)\<lparr>pb_voted_for := Some uuid\<rparr>\<rparr>))"

fun GetConfig :: "Globals \<Rightarrow> RaftConfigState \<Rightarrow> ConsensusMetadata \<Rightarrow> fatal + RaftConfigPB" where
  "GetConfig G ACTIVE_CONFIG cm =
     (if m_has_pending_config cm then Inr (m_pending_config cm)
      else and_then
        (DCHECK (DCHECK_IS_ON G) (has (pb_committed_config (m_pb cm))) ''pb_.has_committed_config()'')
        (\<lambda>_. Inr (get_config (pb_committed_config (m_pb cm)))))"
| "GetConfig G COMMITTED_CONFIG cm =
     and_then
       (DCHECK (DCHECK_IS_ON G) (has (pb_committed_config (m_pb cm))) ''pb_.has_committed_config()'')
       (\<lambda>_. Inr (get_config (pb_committed_config (m_pb cm))))"
| "GetConfig G PENDING_CONFIG cm =
     and_then (CHECK (m_has_pending_config cm) ''There is no pending config'')
       (\<lambda>_. Inr (m_pending_config cm))"

definition CommittedConfig :: "Globals \<Rightarrow> ConsensusMetadata \<Rightarrow> fatal + RaftConfigPB" where
  "CommittedConfig G cm = GetConfig G COMMITTED_CONFIG cm"

definition has_pending_config :: "ConsensusMetadata \<Rightarrow> bool" where
  "has_pending_config cm = m_has_pending_config cm"

definition PendingConfig :: "Globals \<Rightarrow> ConsensusMetadata \<Rightarrow> fatal + RaftConfigPB" where
  "PendingConfig G cm = GetConfig G PENDING_CONFIG cm"

definition ActiveConfig :: "Globals \<Rightarrow> ConsensusMetadata \<Rightarrow> fatal + RaftConfigPB" where
  "ActiveConfig G cm = GetConfig G ACTIVE_CONFIG cm"

definition leader_uuid :: "ConsensusMetadata \<Rightarrow> string" where
  "leader_uuid cm = m_leader_uuid cm"

definition active_role :: "ConsensusMetadata \<Rightarrow> Role" where
  "active_role cm = m_active_role cm"

definition ToConsensusStatePB :: "Globals \<Rightarrow> ConsensusMetadata \<Rightarrow> fatal + ConsensusStatePB" where
  "ToConsensusStatePB G cm =
     and_then (CommittedConfig G cm)
       (\<lambda>committed. Inr
          \<lparr>cs_current_term = Some (get_int64 (pb_current_term (m_pb cm))),
           cs_leader_uuid = (if m_leader_uuid cm \<noteq> [] then Some (m_leader_uuid cm) else None),
           cs_committed_config = Some committed,
           cs_pending_config =
             (if m_has_pending_config cm then Some (m_pending_config cm) else None)\<rparr>)"

text \<open>
  \<^verbatim>\<open>UpdateActiveRole\<close>: the verbose log line builds \<^verbatim>\<open>ToConsensusStatePB()\<close>, so with
  verbose logging on its checks run too; what it prints is not modelled.
\<close>

definition UpdateActiveRole :: "Globals \<Rightarrow> ConsensusMetadata \<Rightarrow> fatal + ConsensusMetadata" where
  "UpdateActiveRole G cm =
     and_then (ActiveConfig G cm)
       (\<lambda>config. and_then
          (UpdateRoleAndTermCache G
             (cm\<lparr>m_active_role := GetConsensusRole G (m_peer_uuid cm) (m_leader_uuid cm) config\<rparr>))
          (\<lambda>cm'. if VLOG_IS_ON_1 G
                  then and_then (ToConsensusStatePB G cm') (\<lambda>_. Inr cm')
                  else Inr cm'))"

definition set_committed_config :: "Globals \<Rightarrow> RaftConfigPB \<Rightarrow> ConsensusMetadata \<Rightarrow> fatal + ConsensusMetadata" where
  "set_committed_config G config cm =
     (let cm' = cm\<lparr>m_pb := (m_pb cm)\<lparr>pb_committed_config := Some config\<rparr>\<rparr>
      in if \<not> m_has_pending_config cm' then UpdateActiveRole G cm' else Inr cm')"

definition clear_pending_config :: "Globals \<Rightarrow> ConsensusMetadata \<Rightarrow> fatal + ConsensusMetadata" where
  "clear_pending_config G cm =
     UpdateActiveRole G (cm\<lparr>m_has_pending_config := False, m_pending_config := RaftConfigPB_default\<rparr>)"

definition set_pending_config :: "Globals \<Rightarrow> RaftConfigPB \<Rightarrow> ConsensusMetadata \<Rightarrow> fatal + ConsensusMetadata" where
  "set_pending_config G config cm =
     UpdateActiveRole G (cm\<lparr>m_has_pending_config := True, m_pending_config := config\<rparr>)"

definition set_leader_uuid :: "Globals \<Rightarrow> string \<Rightarrow> ConsensusMetadata \<Rightarrow> fatal + ConsensusMetadata" where
  "set_leader_uuid G uuid cm = UpdateActiveRole G (cm\<lparr>m_leader_uuid := uuid\<rparr>)"

definition MergeCommittedConsensusStatePB ::
    "Globals \<Rightarrow> ConsensusStatePB \<Rightarrow> ConsensusMetadata \<Rightarrow> fatal + ConsensusMetadata" where
  "MergeCommittedConsensusStatePB G cstate cm =
     and_then (current_term G cm)
       (\<lambda>t. and_then
          (if t <s get_int64 (cs_current_term cstate)
           then and_then (set_current_term G (get_int64 (cs_current_term cstate)) cm)
                  (\<lambda>cm'. Inr (clear_voted_for cm'))
           else Inr cm)
          (\<lambda>cm1. and_then (set_leader_uuid G [] cm1)
             (\<lambda>cm2. and_then
                (set_committed_config G (get_config (cs_committed_config cstate)) cm2)
                (\<lambda>cm3. clear_pending_config G cm3))))"

definition GetRoleAndTerm :: "ConsensusMetadata \<Rightarrow> fatal + Role \<times> int64_t" where
  "GetRoleAndTerm cm =
     (let val = m_role_and_term_cache cm
      in and_then (UnpackTerm val) (\<lambda>t. Inr (UnpackRole val, t)))"

text \<open>
  The constructor. \<^verbatim>\<open>CHECK_NOTNULL(fs_manager)\<close>: a null pointer is \<open>None\<close>. The
  cache word has no initialiser and is written by \<^verbatim>\<open>UpdateRoleAndTermCache\<close> in the
  constructor's body; 0 stands for the value it has before that.
\<close>

definition ConsensusMetadata_new ::
    "Globals \<Rightarrow> FsManager option \<Rightarrow> string \<Rightarrow> string \<Rightarrow> fatal + ConsensusMetadata" where
  "ConsensusMetadata_new G fs_manager tablet_id peer_uuid =
     (case fs_manager of
        None \<Rightarrow> Inl (CheckFailed ''fs_manager must be non-null'')
      | Some fm \<Rightarrow>
          UpdateRoleAndTermCache G
            \<lparr>m_fs_manager = fm, m_tablet_id = tablet_id, m_peer_uuid = peer_uuid,
             m_pb = ConsensusMetadataPB_default,
             m_has_pending_config = False, m_pending_config = RaftConfigPB_default,
             m_leader_uuid = [], m_active_role = UNKNOWN_ROLE, m_role_and_term_cache = 0,
             m_flush_count_for_tests = 0, m_on_disk_size = 0\<rparr>)"


text \<open>The mutators of the class, and a sequence of calls, which stops at a fatal exit.\<close>

datatype Mutator =
    Call_set_current_term int64_t
  | Call_set_voted_for string
  | Call_clear_voted_for
  | Call_set_committed_config RaftConfigPB
  | Call_set_pending_config RaftConfigPB
  | Call_clear_pending_config
  | Call_set_leader_uuid string
  | Call_MergeCommittedConsensusStatePB ConsensusStatePB

fun call :: "Globals \<Rightarrow> Mutator \<Rightarrow> ConsensusMetadata \<Rightarrow> fatal + ConsensusMetadata" where
  "call G (Call_set_current_term term) cm = set_current_term G term cm"
| "call G (Call_set_voted_for uuid) cm = set_voted_for G uuid cm"
| "call G Call_clear_voted_for cm = Inr (clear_voted_for cm)"
| "call G (Call_set_committed_config config) cm = set_committed_config G config cm"
| "call G (Call_set_pending_config config) cm = set_pending_config G config cm"
| "call G Call_clear_pending_config cm = clear_pending_config G cm"
| "call G (Call_set_leader_uuid uuid) cm = set_leader_uuid G uuid cm"
| "call G (Call_MergeCommittedConsensusStatePB cstate) cm =
     MergeCommittedConsensusStatePB G cstate cm"

fun calls :: "Globals \<Rightarrow> Mutator list \<Rightarrow> ConsensusMetadata \<Rightarrow> fatal + ConsensusMetadata" where
  "calls G [] cm = Inr cm"
| "calls G (m # ms) cm = and_then (call G m cm) (calls G ms)"

subsection \<open>Flush\<close>

text \<open>
  The file system is a state of any type \<open>'fs\<close>; the operations on it that \<^verbatim>\<open>Flush\<close>
  calls (\<^verbatim>\<open>env_util::CreateDirIfMissing\<close>, \<^verbatim>\<open>Env::SyncDir\<close>,
  \<^verbatim>\<open>pb_util::WritePBContainerToPath\<close>, \<^verbatim>\<open>Env::GetFileSize\<close>) and \<^verbatim>\<open>DirName\<close> are
  not among the sources and are parameters. Each returns its status and the file system
  after it.
\<close>

datatype FlushMode = OVERWRITE | NO_OVERWRITE

datatype CreateMode = pb_OVERWRITE | pb_NO_OVERWRITE

datatype SyncMode = SYNC | NO_SYNC

record 'fs Env =
  CreateDirIfMissing :: "string \<Rightarrow> 'fs \<Rightarrow> Status \<times> bool \<times> 'fs"
  SyncDir :: "string \<Rightarrow> 'fs \<Rightarrow> Status \<times> 'fs"
  WritePBContainerToPath ::
    "string \<Rightarrow> ConsensusMetadataPB \<Rightarrow> CreateMode \<Rightarrow> SyncMode \<Rightarrow> 'fs \<Rightarrow> Status \<times> 'fs"
  GetFileSize :: "string \<Rightarrow> 'fs \<Rightarrow> Status \<times> uint64_t"
  DirName :: "string \<Rightarrow> string"

record Flags =
  FLAGS_cmeta_force_fsync :: bool
  FLAGS_cmeta_fsync_override_on_xfs :: bool
  FLAGS_log_force_fsync_all :: bool

definition UpdateOnDiskSize ::
    "'fs Env \<Rightarrow> ConsensusMetadata \<Rightarrow> 'fs \<Rightarrow> Status \<times> ConsensusMetadata" where
  "UpdateOnDiskSize env cm fs =
     (let path = GetConsensusMetadataPath (m_fs_manager cm) (m_tablet_id cm);
          (s, on_disk_size) = GetFileSize env path fs
      in if \<not> ok s then (s, cm) else (OK, cm\<lparr>m_on_disk_size := on_disk_size\<rparr>))"

text \<open>
  \<^verbatim>\<open>Flush\<close>. \<open>fault\<close> says whether the hook
  \<^verbatim>\<open>MAYBE_FAULT(FLAGS_fault_crash_before_cmeta_flush)\<close> fires at this call (it does
  with the probability given by the flag, 0.0 by default): the process then exits. The
  result is the returned status, the object and the file system.
\<close>

definition Flush ::
    "Globals \<Rightarrow> Flags \<Rightarrow> 'fs Env \<Rightarrow> bool \<Rightarrow> FlushMode \<Rightarrow> ConsensusMetadata \<Rightarrow> 'fs
      \<Rightarrow> fatal + Status \<times> ConsensusMetadata \<times> 'fs" where
  "Flush G flags env fault flush_mode cm0 fs =
     (if fault then Inl FaultInjected
      else
        let cm = cm0\<lparr>m_flush_count_for_tests := m_flush_count_for_tests cm0 + 1\<rparr>;
            s = VerifyRaftConfig G (get_config (pb_committed_config (m_pb cm)))
        in if \<not> ok s
           then Inr (CloneAndPrepend
                       ''Invalid config in ConsensusMetadata, cannot flush to disk'' s, cm, fs)
           else
             let dir = GetConsensusMetadataDir (m_fs_manager cm);
                 (s, created_dir, fs) = CreateDirIfMissing env dir fs
             in if \<not> ok s
                then Inr (CloneAndPrepend ''Unable to create consensus metadata root dir'' s,
                          cm, fs)
                else
                  let parent_dir = DirName env dir;
                      (s, fs) = (if created_dir then SyncDir env parent_dir fs else (OK, fs))
                  in if \<not> ok s
                     then Inr (CloneAndPrepend
                                 (''Unable to fsync consensus parent dir '' @ parent_dir) s,
                               cm, fs)
                     else
                       let cmeta_force_fsync =
                             (FLAGS_cmeta_force_fsync flags \<or>
                              (FLAGS_cmeta_fsync_override_on_xfs flags \<and>
                               meta_on_xfs (m_fs_manager cm)));
                           meta_file_path =
                             GetConsensusMetadataPath (m_fs_manager cm) (m_tablet_id cm);
                           (s, fs) =
                             WritePBContainerToPath env meta_file_path (m_pb cm)
                               (if flush_mode = OVERWRITE then pb_OVERWRITE else pb_NO_OVERWRITE)
                               (if FLAGS_log_force_fsync_all flags \<or> cmeta_force_fsync
                                then SYNC else NO_SYNC)
                               fs
                       in if \<not> ok s
                          then Inr (CloneAndPrepend
                                      (''Unable to write consensus meta file for tablet '' @
                                       m_tablet_id cm @ '' to path '' @ meta_file_path) s,
                                    cm, fs)
                          else
                            let (s, cm) = UpdateOnDiskSize env cm fs
                            in Inr (s, cm, fs))"

section \<open>RowSetTree\<close>

text \<open>
  Modelled from the spec: \<^verbatim>\<open>Slice\<close> (\<^verbatim>\<open>util/slice.h\<close> is not among the sources).
  A key is a sequence of bytes; \<^verbatim>\<open>Slice::compare\<close> compares two keys
  lexicographically, byte by byte, a proper prefix being smaller, and returns a negative
  number, zero or a positive number.
\<close>

type_synonym key = "8 word list"

fun Slice_compare :: "key \<Rightarrow> key \<Rightarrow> int" where
  "Slice_compare [] [] = 0"
| "Slice_compare [] (b # bs) = - 1"
| "Slice_compare (a # as) [] = 1"
| "Slice_compare (a # as) (b # bs) =
     (if a < b then - 1 else if b < a then 1 else Slice_compare as bs)"

text \<open>
  A rowset is opaque (\<^verbatim>\<open>tablet/rowset.h\<close> is not among the sources): what the tree
  uses of it is its address \<^verbatim>\<open>rs.get()\<close> and what \<^verbatim>\<open>GetBounds\<close> returns: the status
  and the two keys it writes.
\<close>

record RowSet =
  rs_get :: nat
  GetBounds :: "Status \<times> key \<times> key"

record RowSetWithBounds =
  rowset :: nat
  min_key :: key
  max_key :: key

text \<open>
  The entries are allocated with \<^verbatim>\<open>new\<close> and released with \<^verbatim>\<open>delete\<close>: the store is
  a list of cells, a pointer is an index into it, a released cell is \<open>None\<close>, and
  \<^verbatim>\<open>new\<close> takes the next cell.
\<close>

type_synonym heap = "RowSetWithBounds option list"

definition lookup :: "heap \<Rightarrow> nat \<Rightarrow> RowSetWithBounds option" where
  "lookup h p = (if p < length h then h ! p else None)"

definition new_RowSetWithBounds :: "heap \<Rightarrow> nat \<times> heap" where
  "new_RowSetWithBounds h = (length h, h @ [Some \<lparr>rowset = 0, min_key = [], max_key = []\<rparr>])"

definition delete :: "nat \<Rightarrow> heap \<Rightarrow> heap" where
  "delete p h = (if p < length h then h[p := None] else h)"

definition assign :: "nat \<Rightarrow> (RowSetWithBounds \<Rightarrow> RowSetWithBounds) \<Rightarrow> heap \<Rightarrow> heap" where
  "assign p f h = (case lookup h p of None \<Rightarrow> h | Some e \<Rightarrow> h[p := Some (f e)])"

definition deref :: "heap \<Rightarrow> nat \<Rightarrow> fatal + RowSetWithBounds" where
  "deref h p = (case lookup h p of None \<Rightarrow> Inl UseAfterFree | Some e \<Rightarrow> Inr e)"

fun STLDeleteElements :: "nat list \<Rightarrow> heap \<Rightarrow> heap" where
  "STLDeleteElements [] h = h"
| "STLDeleteElements (p # ps) h = STLDeleteElements ps (delete p h)"

fun map_fatal :: "('a \<Rightarrow> fatal + 'b) \<Rightarrow> 'a list \<Rightarrow> fatal + 'b list" where
  "map_fatal f [] = Inr []"
| "map_fatal f (x # xs) =
     and_then (f x) (\<lambda>y. and_then (map_fatal f xs) (\<lambda>ys. Inr (y # ys)))"

text \<open>
  Modelled from the spec: \<^verbatim>\<open>IntervalTree\<close> (\<^verbatim>\<open>util/interval_tree.h\<close> and
  \<^verbatim>\<open>util/interval_tree-inl.h\<close> are not among the sources). The tree is built once
  from a sequence of intervals, here pointers to entries, whose end points the traits
  \<^verbatim>\<open>RowSetIntervalTraits\<close> read through the pointer. \<^verbatim>\<open>FindContainingPoint(P, out)\<close>
  appends to \<^verbatim>\<open>out\<close> every interval \<open>I\<close> with \<open>get_left(I) <= P <= get_right(I)\<close>;
  \<^verbatim>\<open>FindIntersectingInterval(Q, out)\<close> appends every stored interval that intersects
  the closed interval \<open>[get_left(Q), get_right(Q)]\<close>. The order in which a query reports
  the intervals is not part of the contract; the model reports them in the order in
  which the tree was given them.
\<close>

datatype IntervalTree = IntervalTree (intervals: "nat list")

definition get_left :: "RowSetWithBounds \<Rightarrow> key" where
  "get_left rs = min_key rs"

definition get_right :: "RowSetWithBounds \<Rightarrow> key" where
  "get_right rs = max_key rs"

definition compare :: "key \<Rightarrow> key \<Rightarrow> int" where
  "compare a b = Slice_compare a b"

definition contains_point :: "RowSetWithBounds \<Rightarrow> key \<Rightarrow> bool" where
  "contains_point i p = (compare (get_left i) p \<le> 0 \<and> compare p (get_right i) \<le> 0)"

text \<open>Two closed intervals intersect when the larger left end is at most the smaller right end.\<close>

definition intersects :: "RowSetWithBounds \<Rightarrow> RowSetWithBounds \<Rightarrow> bool" where
  "intersects i q =
     (compare (get_left i) (get_right i) \<le> 0 \<and> compare (get_left q) (get_right q) \<le> 0 \<and>
      compare (get_left i) (get_right q) \<le> 0 \<and> compare (get_left q) (get_right i) \<le> 0)"

definition FindContainingPoint ::
    "IntervalTree \<Rightarrow> heap \<Rightarrow> key \<Rightarrow> nat list \<Rightarrow> fatal + nat list" where
  "FindContainingPoint tree h query results =
     and_then (map_fatal (deref h) (intervals tree))
       (\<lambda>es. Inr (results @
                 map fst (filter (\<lambda>(p, e). contains_point e query) (zip (intervals tree) es))))"

definition FindIntersectingInterval ::
    "IntervalTree \<Rightarrow> heap \<Rightarrow> RowSetWithBounds \<Rightarrow> nat list \<Rightarrow> fatal + nat list" where
  "FindIntersectingInterval tree h query results =
     and_then (map_fatal (deref h) (intervals tree))
       (\<lambda>es. Inr (results @
                 map fst (filter (\<lambda>(p, e). intersects e query) (zip (intervals tree) es))))"

text \<open>The member \<^verbatim>\<open>x_\<close> of the class \<^verbatim>\<open>RowSetTree\<close> is the field \<open>t_x\<close>.\<close>

record RowSetTree =
  t_initted :: bool
  t_entries :: "nat list"
  t_unbounded_rowsets :: "RowSet list"
  t_tree :: "IntervalTree option"
  t_all_rowsets :: "RowSet list"

definition RowSetTree_new :: RowSetTree where
  "RowSetTree_new =
     \<lparr>t_initted = False, t_entries = [], t_unbounded_rowsets = [], t_tree = None,
      t_all_rowsets = []\<rparr>"

text \<open>
  The loop of \<^verbatim>\<open>Reset\<close> over the rowsets. The scoped pointer \<^verbatim>\<open>rsit\<close> releases its
  entry when the iteration is left by \<^verbatim>\<open>continue\<close> or \<^verbatim>\<open>return\<close>; the log line is
  not modelled. The result is the status, the local vectors and the store.
\<close>

fun Reset_loop ::
    "RowSet list \<Rightarrow> nat list \<Rightarrow> RowSet list \<Rightarrow> heap \<Rightarrow> Status \<times> nat list \<times> RowSet list \<times> heap"
  where
  "Reset_loop [] entries unbounded h = (OK, entries, unbounded, h)"
| "Reset_loop (rs # rowsets) entries unbounded h =
     (let rsit = fst (new_RowSetWithBounds h);
          h = snd (new_RowSetWithBounds h);
          h = assign rsit (\<lambda>e. e\<lparr>rowset := rs_get rs\<rparr>) h;
          s = fst (GetBounds rs);
          min_key' = fst (snd (GetBounds rs));
          max_key' = snd (snd (GetBounds rs))
      in if IsNotSupported s
         then Reset_loop rowsets entries (unbounded @ [rs]) (delete rsit h)
         else if \<not> ok s then (s, entries, unbounded, delete rsit h)
         else Reset_loop rowsets (entries @ [rsit]) unbounded
                (assign rsit (\<lambda>e. e\<lparr>min_key := min_key', max_key := max_key'\<rparr>) h))"

text \<open>
  \<^verbatim>\<open>Reset\<close>. The \<^verbatim>\<open>ElementDeleter\<close> releases, when the function is left, the
  elements of the local vector \<^verbatim>\<open>entries\<close>: the entries built so far on an error, and
  after the swap the entries that the object held before.
\<close>

definition Reset ::
    "RowSetTree \<Rightarrow> RowSet list \<Rightarrow> heap \<Rightarrow> fatal + Status \<times> RowSetTree \<times> heap" where
  "Reset t rowsets h =
     and_then (CHECK (\<not> t_initted t) ''!initted_'')
       (\<lambda>_. case Reset_loop rowsets [] [] h of
          (s, entries, unbounded, h') \<Rightarrow>
            if \<not> ok s then Inr (s, t, STLDeleteElements entries h')
            else Inr (OK,
                      t\<lparr>t_entries := entries, t_unbounded_rowsets := unbounded,
                        t_tree := Some (IntervalTree entries), t_all_rowsets := rowsets,
                        t_initted := True\<rparr>,
                      STLDeleteElements (t_entries t) h'))"

definition FindRowSetsIntersectingInterval ::
    "bool \<Rightarrow> RowSetTree \<Rightarrow> heap \<Rightarrow> key \<Rightarrow> key \<Rightarrow> nat list \<Rightarrow> fatal + nat list" where
  "FindRowSetsIntersectingInterval dbg t h lower_bound upper_bound rowsets =
     and_then (DCHECK dbg (t_initted t) ''initted_'')
       (\<lambda>_. let rowsets = rowsets @ map rs_get (t_unbounded_rowsets t);
                query = \<lparr>rowset = 0, min_key = lower_bound, max_key = upper_bound\<rparr>
            in case t_tree t of
                 None \<Rightarrow> Inl NullDereference
               | Some tree \<Rightarrow>
                   and_then (FindIntersectingInterval tree h query [])
                     (\<lambda>from_tree. and_then (map_fatal (deref h) from_tree)
                        (\<lambda>es. Inr (rowsets @ map rowset es))))"

definition FindRowSetsWithKeyInRange ::
    "bool \<Rightarrow> RowSetTree \<Rightarrow> heap \<Rightarrow> key \<Rightarrow> nat list \<Rightarrow> fatal + nat list" where
  "FindRowSetsWithKeyInRange dbg t h encoded_key rowsets =
     and_then (DCHECK dbg (t_initted t) ''initted_'')
       (\<lambda>_. let rowsets = rowsets @ map rs_get (t_unbounded_rowsets t)
            in case t_tree t of
                 None \<Rightarrow> Inl NullDereference
               | Some tree \<Rightarrow>
                   and_then (FindContainingPoint tree h encoded_key [])
                     (\<lambda>from_tree. and_then (map_fatal (deref h) from_tree)
                        (\<lambda>es. Inr (rowsets @ map rowset es))))"

section \<open>Auxiliary predicates\<close>

text \<open>
  The cache word holds the packed active role and term, where \<^verbatim>\<open>UpdateRoleAndTermCache\<close>
  takes -1 for the term when the protobuf has none.
\<close>

definition cache_ok :: "ConsensusMetadata \<Rightarrow> bool" where
  "cache_ok cm \<longleftrightarrow>
     m_role_and_term_cache cm =
       PackRoleAndTerm (m_active_role cm)
         (case pb_current_term (m_pb cm) of None \<Rightarrow> - 1 | Some t \<Rightarrow> t)"

definition role_ok :: "ConsensusMetadata \<Rightarrow> bool" where
  "role_ok cm \<longleftrightarrow> m_active_role cm \<in> known_roles \<union> {UNKNOWN_ROLE}"

text \<open>
  What \<^verbatim>\<open>Reset\<close> makes of a rowset: it is unbounded when \<^verbatim>\<open>GetBounds\<close> returns
  NotSupported, it fails the reset when \<^verbatim>\<open>GetBounds\<close> returns another error, and
  otherwise it gets the entry \<open>entry_of\<close>. \<open>cell_of\<close> is the cell that the iteration for
  the rowset leaves in the store, \<open>ptrs_of n\<close> the pointers to the entries of a list of
  rowsets when the first cell is number \<open>n\<close>.
\<close>

definition is_unbounded :: "RowSet \<Rightarrow> bool" where
  "is_unbounded rs = IsNotSupported (fst (GetBounds rs))"

definition bounds_failed :: "RowSet \<Rightarrow> bool" where
  "bounds_failed rs \<longleftrightarrow>
     \<not> IsNotSupported (fst (GetBounds rs)) \<and> \<not> ok (fst (GetBounds rs))"

definition entry_of :: "RowSet \<Rightarrow> RowSetWithBounds" where
  "entry_of rs =
     \<lparr>rowset = rs_get rs, min_key = fst (snd (GetBounds rs)),
      max_key = snd (snd (GetBounds rs))\<rparr>"

definition cell_of :: "RowSet \<Rightarrow> RowSetWithBounds option" where
  "cell_of rs = (if is_unbounded rs then None else Some (entry_of rs))"

fun ptrs_of :: "nat \<Rightarrow> RowSet list \<Rightarrow> nat list" where
  "ptrs_of n [] = []"
| "ptrs_of n (rs # rowsets) =
     (if is_unbounded rs then ptrs_of (Suc n) rowsets else n # ptrs_of (Suc n) rowsets)"

section \<open>Example inputs\<close>

definition G0 :: Globals where
  "G0 = \<lparr>DCHECK_IS_ON = True, VLOG_IS_ON_1 = True,
          GetConsensusRole = (\<lambda>peer leader config. if peer = leader then 1 else 0),
          VerifyRaftConfig =
            (\<lambda>config. if peers config = [] then Error InvalidArgument ''no peers'' else OK)\<rparr>"

definition fm0 :: FsManager where
  "fm0 = \<lparr>GetConsensusMetadataDir = ''/data/consensus-meta'', meta_on_xfs = False\<rparr>"

definition config1 :: RaftConfigPB where
  "config1 = \<lparr>opid_index = Some 0,
               peers = [\<lparr>permanent_uuid = ''p1'', member_type = VOTER\<rparr>]\<rparr>"

definition config2 :: RaftConfigPB where
  "config2 = \<lparr>opid_index = Some 7,
               peers = [\<lparr>permanent_uuid = ''p1'', member_type = VOTER\<rparr>,
                        \<lparr>permanent_uuid = ''p2'', member_type = VOTER\<rparr>]\<rparr>"

definition cstate7 :: ConsensusStatePB where
  "cstate7 = \<lparr>cs_current_term = Some 7, cs_leader_uuid = None,
               cs_committed_config = Some config2, cs_pending_config = None\<rparr>"

definition cstate2 :: ConsensusStatePB where
  "cstate2 = \<lparr>cs_current_term = Some 2, cs_leader_uuid = None,
               cs_committed_config = Some config2, cs_pending_config = None\<rparr>"

text \<open>A fresh object, and the object of the spec's scenario 4: term 3, voted for p1.\<close>

definition cm_fresh :: "fatal + ConsensusMetadata" where
  "cm_fresh = ConsensusMetadata_new G0 (Some fm0) ''t1'' ''p1''"

definition cm_term3 :: "fatal + ConsensusMetadata" where
  "cm_term3 =
     and_then cm_fresh
       (calls G0 [Call_set_committed_config config1, Call_set_current_term 3,
                  Call_set_voted_for ''p1'', Call_set_leader_uuid ''p1'',
                  Call_set_pending_config config2])"

definition cm3 :: ConsensusMetadata where
  "cm3 =
     \<lparr>m_fs_manager = fm0, m_tablet_id = ''t1'', m_peer_uuid = ''p1'',
      m_pb = \<lparr>pb_committed_config = Some config1, pb_current_term = Some 3,
              pb_voted_for = Some ''p1''\<rparr>,
      m_has_pending_config = True, m_pending_config = config2, m_leader_uuid = ''p1'',
      m_active_role = 1, m_role_and_term_cache = 0x2000000000000003,
      m_flush_count_for_tests = 0, m_on_disk_size = 0\<rparr>"

text \<open>That object after merging a state with term 7, and after merging one with term 2.\<close>

definition cm3_merged7 :: ConsensusMetadata where
  "cm3_merged7 =
     \<lparr>m_fs_manager = fm0, m_tablet_id = ''t1'', m_peer_uuid = ''p1'',
      m_pb = \<lparr>pb_committed_config = Some config2, pb_current_term = Some 7,
              pb_voted_for = None\<rparr>,
      m_has_pending_config = False, m_pending_config = RaftConfigPB_default,
      m_leader_uuid = [], m_active_role = 0, m_role_and_term_cache = 7,
      m_flush_count_for_tests = 0, m_on_disk_size = 0\<rparr>"

definition cm3_merged2 :: ConsensusMetadata where
  "cm3_merged2 =
     \<lparr>m_fs_manager = fm0, m_tablet_id = ''t1'', m_peer_uuid = ''p1'',
      m_pb = \<lparr>pb_committed_config = Some config2, pb_current_term = Some 3,
              pb_voted_for = Some ''p1''\<rparr>,
      m_has_pending_config = False, m_pending_config = RaftConfigPB_default,
      m_leader_uuid = [], m_active_role = 0, m_role_and_term_cache = 3,
      m_flush_count_for_tests = 0, m_on_disk_size = 0\<rparr>"

text \<open>The fresh object, and the object after the two calls of the sequence below.\<close>

definition cm0 :: ConsensusMetadata where
  "cm0 =
     \<lparr>m_fs_manager = fm0, m_tablet_id = ''t1'', m_peer_uuid = ''p1'',
      m_pb = ConsensusMetadataPB_default,
      m_has_pending_config = False, m_pending_config = RaftConfigPB_default,
      m_leader_uuid = [], m_active_role = UNKNOWN_ROLE,
      m_role_and_term_cache = 0xFFFFFFFFFFFFFFFF,
      m_flush_count_for_tests = 0, m_on_disk_size = 0\<rparr>"

text \<open>The fresh object after \<^verbatim>\<open>set_committed_config\<close>, as in \<^verbatim>\<open>Create\<close>.\<close>

definition cm0_config1 :: ConsensusMetadata where
  "cm0_config1 =
     \<lparr>m_fs_manager = fm0, m_tablet_id = ''t1'', m_peer_uuid = ''p1'',
      m_pb = \<lparr>pb_committed_config = Some config1, pb_current_term = None,
              pb_voted_for = None\<rparr>,
      m_has_pending_config = False, m_pending_config = RaftConfigPB_default,
      m_leader_uuid = [], m_active_role = 0,
      m_role_and_term_cache = 0x1FFFFFFFFFFFFFFF,
      m_flush_count_for_tests = 0, m_on_disk_size = 0\<rparr>"

definition calls_5 :: "Mutator list" where
  "calls_5 = [Call_set_committed_config config1, Call_set_leader_uuid ''p1'',
              Call_set_current_term 5]"

definition cm5 :: ConsensusMetadata where
  "cm5 =
     \<lparr>m_fs_manager = fm0, m_tablet_id = ''t1'', m_peer_uuid = ''p1'',
      m_pb = \<lparr>pb_committed_config = Some config1, pb_current_term = Some 5,
              pb_voted_for = None\<rparr>,
      m_has_pending_config = False, m_pending_config = RaftConfigPB_default,
      m_leader_uuid = ''p1'', m_active_role = 1,
      m_role_and_term_cache = 0x2000000000000005,
      m_flush_count_for_tests = 0, m_on_disk_size = 0\<rparr>"

text \<open>A sequence of calls whose last one sets the term \<open>2^61 - 1\<close>.\<close>

definition calls_sentinel :: "Mutator list" where
  "calls_sentinel = [Call_set_committed_config config1,
                     Call_set_current_term 0x1FFFFFFFFFFFFFFF]"

definition cm_sentinel :: "fatal + ConsensusMetadata" where
  "cm_sentinel = and_then cm_fresh (calls G0 calls_sentinel)"

text \<open>
  The rowsets of the spec's scenarios 5 and 6, with the keys a..g as the bytes 97..103:
  R1 = [a, c], R2 = [b, d], R3 = [e, g], an unbounded rowset U, and a rowset whose
  \<^verbatim>\<open>GetBounds\<close> fails.
\<close>

definition R1 :: RowSet where
  "R1 = \<lparr>rs_get = 101, GetBounds = (OK, [97], [99])\<rparr>"

definition R2 :: RowSet where
  "R2 = \<lparr>rs_get = 102, GetBounds = (OK, [98], [100])\<rparr>"

definition R3 :: RowSet where
  "R3 = \<lparr>rs_get = 103, GetBounds = (OK, [101], [103])\<rparr>"

definition U0 :: RowSet where
  "U0 = \<lparr>rs_get = 100, GetBounds = (Error NotSupported ''bounds change'', [], [])\<rparr>"

definition R_bad :: RowSet where
  "R_bad = \<lparr>rs_get = 104, GetBounds = (Error Corruption ''bad block'', [], [])\<rparr>"

definition tree_R1_U_R2_R3 :: RowSetTree where
  "tree_R1_U_R2_R3 =
     \<lparr>t_initted = True, t_entries = [0, 2, 3], t_unbounded_rowsets = [U0],
      t_tree = Some (IntervalTree [0, 2, 3]), t_all_rowsets = [R1, U0, R2, R3]\<rparr>"

definition heap_R1_U_R2_R3 :: heap where
  "heap_R1_U_R2_R3 =
     [Some \<lparr>rowset = 101, min_key = [97], max_key = [99]\<rparr>, None,
      Some \<lparr>rowset = 102, min_key = [98], max_key = [100]\<rparr>,
      Some \<lparr>rowset = 103, min_key = [101], max_key = [103]\<rparr>]"

text \<open>
  A file system that is the list of the paths written so far, and the operations on it:
  the directory exists, every write succeeds and records its path.
\<close>

definition flags0 :: Flags where
  "flags0 = \<lparr>FLAGS_cmeta_force_fsync = False, FLAGS_cmeta_fsync_override_on_xfs = False,
              FLAGS_log_force_fsync_all = False\<rparr>"

definition env0 :: "string list Env" where
  "env0 = \<lparr>CreateDirIfMissing = (\<lambda>dir fs. (OK, False, fs)),
            SyncDir = (\<lambda>dir fs. (OK, fs)),
            WritePBContainerToPath = (\<lambda>path pb create_mode sync_mode fs. (OK, path # fs)),
            GetFileSize = (\<lambda>path fs. (OK, 42)),
            DirName = (\<lambda>path. ''/data'')\<rparr>"
section \<open>Facts about words\<close>

lemma kUnknownRolePacked_eq: "kUnknownRolePacked = 7"
  by (simp add: kUnknownRolePacked_def kPackedRoleBits_def)

lemma kPackedTermBits_eq: "kPackedTermBits = 61"
  by (simp add: kPackedTermBits_def kPackedRoleBits_def)

lemma kRoleMask_eq: "kRoleMask = 0xE000000000000000"
  by (simp add: kRoleMask_def kPackedTermBits_eq kUnknownRolePacked_eq)

lemma kTermMask_eq: "kTermMask = 0x1FFFFFFFFFFFFFFF"
  by (simp add: kTermMask_def kRoleMask_eq)

lemma kTermMask_mask: "kTermMask = mask 61"
  by (simp add: kTermMask_eq mask_eq_exp_minus_1)

lemma kRoleMask_not_mask: "kRoleMask = NOT (mask 61)"
  by (simp add: kRoleMask_eq mask_eq_exp_minus_1)

lemma take_bit_61_self:
  assumes "unat (t :: 64 word) < 2 ^ 61"
  shows "take_bit 61 t = t"
proof -
  from assms have "take_bit 61 (unat t) = unat t"
    by (simp add: take_bit_nat_eq_self_iff)
  then have "unat (take_bit 61 t) = unat t"
    by (simp add: unsigned_take_bit_eq)
  then show ?thesis
    by (simp add: word_eq_iff_unsigned [where ?'a = nat])
qed

lemma bit_below_61:
  assumes "unat (t :: 64 word) < 2 ^ 61" and "bit t n"
  shows "n < 61"
proof -
  have "bit (take_bit 61 t) n"
    using assms by (simp add: take_bit_61_self)
  then show ?thesis
    by (simp add: bit_take_bit_iff)
qed

lemma in_range_AND_kRoleMask:
  assumes "unat (t :: 64 word) < 2 ^ 61"
  shows "t AND kRoleMask = 0"
proof (rule bit_eqI)
  fix n
  show "bit (t AND kRoleMask) n = bit (0 :: 64 word) n"
    using bit_below_61 [OF assms, of n] by (auto simp: kRoleMask_not_mask bit_simps)
qed

lemma in_range_AND_kTermMask:
  "unat (t :: 64 word) < 2 ^ 61 \<Longrightarrow> t AND kTermMask = t"
  using take_bit_61_self [of t] by (simp add: kTermMask_mask flip: take_bit_eq_mask)

lemma out_of_range_AND_kRoleMask:
  assumes "\<not> unat (t :: 64 word) < 2 ^ 61"
  shows "t AND kRoleMask \<noteq> 0"
proof
  assume z: "t AND kRoleMask = 0"
  have "take_bit 61 t = t"
  proof (rule bit_eqI)
    fix n
    have "bit (t AND kRoleMask) n = False"
      using z by simp
    then show "bit (take_bit 61 t) n = bit t n"
      by (auto simp: kRoleMask_not_mask bit_simps dest: bit_imp_le_length)
  qed
  then have "unat t = take_bit 61 (unat t)"
    by (metis unsigned_take_bit_eq)
  then have "unat t < 2 ^ 61"
    by (metis take_bit_nat_less_exp)
  with assms show False by simp
qed

lemma term_field_of_packed:
  "(push_bit 61 (r :: 64 word) OR t) AND kTermMask = t AND kTermMask"
  by (rule bit_eqI) (auto simp: kTermMask_mask bit_simps)

lemma role_field_of_packed:
  assumes "unat (t :: 64 word) \<le> 2 ^ 61 - 1"
  shows "drop_bit 61 (push_bit 61 (r :: 64 word) OR t) = take_bit 3 r"
proof (rule bit_eqI)
  fix n
  from assms have lt: "unat t < 2 ^ 61" by simp
  show "bit (drop_bit 61 (push_bit 61 r OR t)) n = bit (take_bit 3 r) n"
    using bit_below_61 [OF lt, of "61 + n"] bit_imp_le_length [of r n]
    by (auto simp: bit_simps)
qed

lemma unat_kTermMask: "unat kTermMask = 2 ^ 61 - 1"
  by (simp add: kTermMask_eq)

lemma role_cases:
  "0 \<le> (k :: int) \<Longrightarrow> k \<le> 6 \<Longrightarrow> k = 0 \<or> k = 1 \<or> k = 2 \<or> k = 3 \<or> k = 4 \<or> k = 5 \<or> k = 6"
  by arith

lemma take_bit_3_role:
  "0 \<le> (k :: int) \<Longrightarrow> k \<le> 6 \<Longrightarrow> take_bit 3 (word_of_int k :: 64 word) = word_of_int k"
  by (drule (1) role_cases) auto

lemma uint_role: "0 \<le> (k :: int) \<Longrightarrow> k \<le> 6 \<Longrightarrow> uint (word_of_int k :: 64 word) = k"
  by (drule (1) role_cases) auto

lemma role_not_7: "0 \<le> (k :: int) \<Longrightarrow> k \<le> 6 \<Longrightarrow> (word_of_int k :: 64 word) \<noteq> 7"
  by (drule (1) role_cases) auto

lemma sint_nonneg_uint:
  assumes "0 \<le> sint (t :: 64 word)"
  shows "sint t = uint t"
proof -
  have nb: "\<not> bit t 63"
    using assms bit_last_iff [of t] by simp
  have "take_bit 63 t = t"
  proof (rule bit_eqI)
    fix n
    show "bit (take_bit 63 t) n = bit t n"
      using nb bit_imp_le_length [of t n]
      by (cases "n = 63") (auto simp: bit_simps)
  qed
  then have "take_bit 63 (uint t) = uint t"
    by (metis unsigned_take_bit_eq)
  moreover have "\<not> bit (uint t) 63"
    using nb by (simp add: bit_uint_iff)
  ultimately show ?thesis
    by (simp add: sint_uint signed_take_bit_eq_if_positive)
qed

lemma term_in_range_unat:
  assumes "0 \<le> sint (t :: 64 word)" and "sint t < 2 ^ 61"
  shows "unat t < 2 ^ 61"
proof -
  have "sint t = uint t"
    using assms(1) by (rule sint_nonneg_uint)
  then have "int (unat t) < 2 ^ 61"
    using assms(2) by simp
  then show ?thesis
    by (simp only: of_nat_less_numeral_power_cancel_iff)
qed

lemma term_too_big_unat:
  assumes "2 ^ 61 \<le> sint (t :: 64 word)"
  shows "\<not> unat t < 2 ^ 61"
proof -
  have "0 \<le> sint t"
    using assms by simp
  then have "sint t = uint t"
    by (rule sint_nonneg_uint)
  then have "\<not> int (unat t) < 2 ^ 61"
    using assms by simp
  then show ?thesis
    by (simp only: of_nat_less_numeral_power_cancel_iff simp_thms)
qed

lemma term_negative_unat:
  assumes "sint (t :: 64 word) < 0"
  shows "\<not> unat t < 2 ^ 61"
proof
  assume a: "unat t < 2 ^ 61"
  have "bit t 63"
    using assms bit_last_iff [of t] by simp
  from bit_below_61 [OF a this] show False by simp
qed

lemma term_sentinel_word:
  assumes "sint (t :: 64 word) = 2 ^ 61 - 1"
  shows "t = kTermMask"
proof -
  have "0 \<le> sint t" using assms by simp
  then have "sint t = uint t" by (rule sint_nonneg_uint)
  then have "uint t = uint kTermMask" using assms by (simp add: kTermMask_eq)
  then show ?thesis by (simp add: word_eq_iff_unsigned [where ?'a = int])
qed

section \<open>Pack and unpack\<close>

lemma PackRoleAndTerm_in_range:
  "unat term < 2 ^ 61 \<Longrightarrow>
   PackRoleAndTerm role term =
     push_bit 61 (if role = UNKNOWN_ROLE then 7 else word_of_int role) OR term"
  by (simp add: PackRoleAndTerm_def in_range_AND_kRoleMask kPackedTermBits_eq
      kUnknownRolePacked_eq)

lemma PackRoleAndTerm_out_of_range:
  "\<not> unat term < 2 ^ 61 \<Longrightarrow>
   PackRoleAndTerm role term =
     push_bit 61 (if role = UNKNOWN_ROLE then 7 else word_of_int role) OR kTermMask"
  by (simp add: PackRoleAndTerm_def out_of_range_AND_kRoleMask kPackedTermBits_eq
      kUnknownRolePacked_eq)

lemma term_field_PackRoleAndTerm:
  "PackRoleAndTerm role term AND kTermMask =
     (if unat term < 2 ^ 61 then term else kTermMask)"
proof (cases "unat term < 2 ^ 61")
  case True
  then show ?thesis
    by (simp only: PackRoleAndTerm_in_range term_field_of_packed in_range_AND_kTermMask if_True)
next
  case False
  have "kTermMask AND kTermMask = kTermMask" by simp
  with False show ?thesis
    by (simp only: PackRoleAndTerm_out_of_range term_field_of_packed if_False simp_thms)
qed

lemma eq_kTermMask_iff: "t = kTermMask \<longleftrightarrow> unat t = 2 ^ 61 - 1"
  by (simp only: word_eq_iff_unsigned [where ?'a = nat] unat_kTermMask)

lemma UnpackTerm_PackRoleAndTerm:
  "UnpackTerm (PackRoleAndTerm role term) =
     (if unat term < 2 ^ 61 - 1 then Inr term else Inl (LogFatal ''packed term is invalid''))"
proof -
  have k: "unat term < 2 ^ 61 - 1 \<longleftrightarrow> unat term < 2 ^ 61 \<and> term \<noteq> kTermMask"
    unfolding eq_kTermMask_iff by auto
  show ?thesis
    unfolding UnpackTerm_def Let_def term_field_PackRoleAndTerm k by auto
qed

lemma UnpackRole_PackRoleAndTerm:
  assumes "role \<in> known_roles \<union> {UNKNOWN_ROLE}"
  shows "UnpackRole (PackRoleAndTerm role term) = role"
proof -
  define t' where "t' = (if term AND kRoleMask \<noteq> 0 then kTermMask else term)"
  define r :: "64 word" where "r = (if role = UNKNOWN_ROLE then 7 else word_of_int role)"
  have t': "unat t' \<le> 2 ^ 61 - 1"
  proof (cases "unat term < 2 ^ 61")
    case True
    then show ?thesis by (simp add: t'_def in_range_AND_kRoleMask)
  next
    case False
    then show ?thesis
      by (simp only: t'_def out_of_range_AND_kRoleMask unat_kTermMask if_True
          not_False_eq_True order_refl)
  qed
  have p: "PackRoleAndTerm role term = push_bit 61 r OR t'"
    by (simp add: PackRoleAndTerm_def t'_def r_def kPackedTermBits_eq kUnknownRolePacked_eq)
  have u: "UnpackRole (PackRoleAndTerm role term) =
      (if take_bit 3 r = 7 then UNKNOWN_ROLE else uint (take_bit 3 r))"
    by (simp only: p UnpackRole_def Let_def kPackedTermBits_eq kUnknownRolePacked_eq
        role_field_of_packed [OF t'])
  show ?thesis
  proof (cases "role = UNKNOWN_ROLE")
    case True
    then have "r = 7" by (simp add: r_def)
    then have "take_bit 3 r = 7" by simp
    then have "UnpackRole (PackRoleAndTerm role term) = UNKNOWN_ROLE"
      by (simp add: u)
    with True show ?thesis by simp
  next
    case False
    with assms have k: "0 \<le> role" "role \<le> 6"
      by (auto simp: known_roles_def)
    from False have "r = word_of_int role" by (simp add: r_def)
    then have "take_bit 3 r = word_of_int role" by (simp add: take_bit_3_role [OF k])
    then show ?thesis
      by (simp add: u role_not_7 [OF k] uint_role [OF k])
  qed
qed

lemma term_in_range_unat':
  assumes "0 \<le> sint (t :: 64 word)" and "sint t \<le> 2 ^ 61 - 2"
  shows "unat t < 2 ^ 61 - 1"
proof -
  have "sint t = uint t"
    using assms(1) by (rule sint_nonneg_uint)
  then have "int (unat t) < int (2 ^ 61 - 1)"
    using assms(2) by simp
  then show ?thesis
    by (simp only: of_nat_less_iff)
qed

text \<open>
  C2. For every role that is one of the known roles 0..6 or \<^verbatim>\<open>UNKNOWN_ROLE\<close>, and
  every term in \<open>[0, 2^61 - 2]\<close>, \<^verbatim>\<open>UnpackRole\<close> of the packed word is the role and
  \<^verbatim>\<open>UnpackTerm\<close> of the packed word returns the term.
\<close>

theorem pack_unpack_roundtrip:
  assumes "role \<in> known_roles \<union> {UNKNOWN_ROLE}"
    and "0 \<le> sint term" and "sint term \<le> 2 ^ 61 - 2"
  shows "UnpackRole (PackRoleAndTerm role term) = role \<and>
         UnpackTerm (PackRoleAndTerm role term) = Inr term"
  by (simp only: UnpackRole_PackRoleAndTerm [OF assms(1)] UnpackTerm_PackRoleAndTerm
        term_in_range_unat' [OF assms(2,3)] if_True simp_thms)

theorem pack_unpack_roundtrip_witness:
  "(1 :: Role) \<in> known_roles \<union> {UNKNOWN_ROLE} \<and> 0 \<le> sint (5 :: int64_t) \<and>
   sint (5 :: int64_t) \<le> 2 ^ 61 - 2 \<and>
   UnpackRole (PackRoleAndTerm 1 5) = 1 \<and> UnpackTerm (PackRoleAndTerm 1 5) = Inr 5"
proof -
  have a: "(1 :: Role) \<in> known_roles \<union> {UNKNOWN_ROLE}" by (simp add: known_roles_def)
  have b: "0 \<le> sint (5 :: int64_t)" by simp
  have c: "sint (5 :: int64_t) \<le> 2 ^ 61 - 2" by simp
  show ?thesis using a b c pack_unpack_roundtrip [OF a b c] by simp
qed

text \<open>
  C3. For every term of at least \<open>2^61 - 1\<close>, \<^verbatim>\<open>PackRoleAndTerm\<close> returns a word
  (it has no fatal exit) whose term field is the sentinel \<open>kTermMask = 2^61 - 1\<close>; and
  \<^verbatim>\<open>UnpackTerm\<close> on any word whose term field is the sentinel is fatal.
\<close>

theorem pack_out_of_range_term:
  "(2 ^ 61 - 1 \<le> sint term \<longrightarrow> PackRoleAndTerm role term AND kTermMask = kTermMask) \<and>
   (w AND kTermMask = kTermMask \<longrightarrow> UnpackTerm w = Inl (LogFatal ''packed term is invalid''))"
proof (intro conjI impI)
  assume a: "2 ^ 61 - 1 \<le> sint term"
  show "PackRoleAndTerm role term AND kTermMask = kTermMask"
  proof (cases "sint term = 2 ^ 61 - 1")
    case True
    then have "term = kTermMask" by (rule term_sentinel_word)
    then show ?thesis by (simp add: term_field_PackRoleAndTerm)
  next
    case False
    with a have "2 ^ 61 \<le> sint term" by simp
    then have "\<not> unat term < 2 ^ 61" by (rule term_too_big_unat)
    then show ?thesis by (simp only: term_field_PackRoleAndTerm if_False)
  qed
next
  assume "w AND kTermMask = kTermMask"
  then show "UnpackTerm w = Inl (LogFatal ''packed term is invalid'')"
    by (simp add: UnpackTerm_def)
qed

theorem pack_out_of_range_term_witness:
  "2 ^ 61 - 1 \<le> sint (2 ^ 62 :: int64_t) \<and>
   PackRoleAndTerm 1 (2 ^ 62) AND kTermMask = kTermMask \<and>
   PackRoleAndTerm 1 (2 ^ 62) = 0x3FFFFFFFFFFFFFFF \<and>
   UnpackTerm 0x3FFFFFFFFFFFFFFF = Inl (LogFatal ''packed term is invalid'')"
proof -
  have a: "2 ^ 61 - 1 \<le> sint (2 ^ 62 :: int64_t)" by simp
  have b: "PackRoleAndTerm 1 (2 ^ 62) = 0x3FFFFFFFFFFFFFFF"
    by (simp add: PackRoleAndTerm_def kRoleMask_eq kTermMask_eq kPackedTermBits_eq
        kUnknownRolePacked_eq UNKNOWN_ROLE_def)
  show ?thesis
    using a b pack_out_of_range_term [of "2 ^ 62" 1 "0x3FFFFFFFFFFFFFFF"] by simp
qed

section \<open>ConsensusMetadata: what each member function does\<close>

lemma and_then_Inr_iff:
  "and_then m f = Inr y \<longleftrightarrow> (\<exists>x. m = Inr x \<and> f x = Inr y)"
  by (cases m) (simp_all add: and_then_def)

lemma and_then_Inr [simp]: "and_then (Inr x) f = f x"
  by (simp add: and_then_def)

lemma and_then_Inl [simp]: "and_then (Inl e) f = Inl e"
  by (simp add: and_then_def)

lemma DCHECK_Inr_iff: "DCHECK dbg c msg = Inr u \<longleftrightarrow> (dbg \<longrightarrow> c)"
  by (auto simp: DCHECK_def)

lemma DCHECK_True [simp]: "DCHECK dbg True msg = Inr ()"
  by (simp add: DCHECK_def)

lemma DCHECK_off [simp]: "DCHECK False c msg = Inr ()"
  by (simp add: DCHECK_def)

lemma UpdateRoleAndTermCache_eq:
  "UpdateRoleAndTermCache G cm =
     Inr (cm\<lparr>m_role_and_term_cache :=
               PackRoleAndTerm (m_active_role cm)
                 (case pb_current_term (m_pb cm) of None \<Rightarrow> - 1 | Some t \<Rightarrow> t)\<rparr>)"
  by (cases "pb_current_term (m_pb cm)")
    (simp_all add: UpdateRoleAndTermCache_def current_term_def has_def get_int64_def)

lemma UpdateActiveRole_Inr:
  assumes "UpdateActiveRole G cm = Inr cm'"
  shows "\<exists>config. ActiveConfig G cm = Inr config \<and>
           cm' = cm\<lparr>m_active_role := GetConsensusRole G (m_peer_uuid cm) (m_leader_uuid cm) config,
                     m_role_and_term_cache :=
                       PackRoleAndTerm
                         (GetConsensusRole G (m_peer_uuid cm) (m_leader_uuid cm) config)
                         (case pb_current_term (m_pb cm) of None \<Rightarrow> - 1 | Some t \<Rightarrow> t)\<rparr>"
  using assms
  by (auto simp: UpdateActiveRole_def and_then_Inr_iff UpdateRoleAndTermCache_eq
      split: if_splits)

lemma UpdateActiveRole_frame:
  assumes "UpdateActiveRole G cm = Inr cm'"
  shows "m_pb cm' = m_pb cm" and "m_leader_uuid cm' = m_leader_uuid cm"
    and "m_has_pending_config cm' = m_has_pending_config cm"
    and "m_pending_config cm' = m_pending_config cm"
    and "cache_ok cm'"
    and "\<exists>config. m_active_role cm' = GetConsensusRole G (m_peer_uuid cm) (m_leader_uuid cm) config"
  using UpdateActiveRole_Inr [OF assms] by (auto simp: cache_ok_def)

lemma UpdateActiveRole_release:
  "\<not> DCHECK_IS_ON G \<Longrightarrow> \<exists>cm'. UpdateActiveRole G cm = Inr cm'"
  by (simp add: UpdateActiveRole_def ActiveConfig_def UpdateRoleAndTermCache_eq
      ToConsensusStatePB_def CommittedConfig_def)

lemma set_current_term_Inr:
  assumes "set_current_term G term cm = Inr cm'"
  shows "cm' = cm\<lparr>m_pb := (m_pb cm)\<lparr>pb_current_term := Some term\<rparr>,
                   m_role_and_term_cache := PackRoleAndTerm (m_active_role cm) term\<rparr>"
  using assms
  by (auto simp: set_current_term_def and_then_Inr_iff UpdateRoleAndTermCache_eq)

lemma set_current_term_returns:
  "DCHECK_IS_ON G \<longrightarrow> kMinimumTerm \<le>s term \<Longrightarrow> \<exists>cm'. set_current_term G term cm = Inr cm'"
  by (auto simp: set_current_term_def DCHECK_def UpdateRoleAndTermCache_eq)

lemma set_leader_uuid_frame:
  assumes "set_leader_uuid G uuid cm = Inr cm'"
  shows "m_pb cm' = m_pb cm" and "m_leader_uuid cm' = uuid"
    and "m_has_pending_config cm' = m_has_pending_config cm"
    and "m_pending_config cm' = m_pending_config cm"
    and "cache_ok cm'"
  using UpdateActiveRole_frame [OF assms [unfolded set_leader_uuid_def]] by simp_all

lemma set_committed_config_frame:
  assumes "set_committed_config G config cm = Inr cm'"
  shows "m_pb cm' = (m_pb cm)\<lparr>pb_committed_config := Some config\<rparr>"
    and "m_leader_uuid cm' = m_leader_uuid cm"
    and "m_has_pending_config cm' = m_has_pending_config cm"
    and "m_pending_config cm' = m_pending_config cm"
    and "cache_ok cm \<longrightarrow> cache_ok cm'"
proof -
  let ?cm = "cm\<lparr>m_pb := (m_pb cm)\<lparr>pb_committed_config := Some config\<rparr>\<rparr>"
  have all: "m_pb cm' = (m_pb cm)\<lparr>pb_committed_config := Some config\<rparr> \<and>
      m_leader_uuid cm' = m_leader_uuid cm \<and>
      m_has_pending_config cm' = m_has_pending_config cm \<and>
      m_pending_config cm' = m_pending_config cm \<and> (cache_ok cm \<longrightarrow> cache_ok cm')"
  proof (cases "m_has_pending_config cm")
    case True
    with assms have "cm' = ?cm"
      by (simp add: set_committed_config_def Let_def)
    then show ?thesis by (simp add: cache_ok_def)
  next
    case False
    with assms have "UpdateActiveRole G ?cm = Inr cm'"
      by (simp add: set_committed_config_def Let_def)
    from UpdateActiveRole_frame [OF this] show ?thesis by simp
  qed
  from all show "m_pb cm' = (m_pb cm)\<lparr>pb_committed_config := Some config\<rparr>"
    and "m_leader_uuid cm' = m_leader_uuid cm"
    and "m_has_pending_config cm' = m_has_pending_config cm"
    and "m_pending_config cm' = m_pending_config cm"
    and "cache_ok cm \<longrightarrow> cache_ok cm'"
    by simp_all
qed

lemma clear_pending_config_frame:
  assumes "clear_pending_config G cm = Inr cm'"
  shows "m_pb cm' = m_pb cm" and "m_leader_uuid cm' = m_leader_uuid cm"
    and "\<not> m_has_pending_config cm'" and "cache_ok cm'"
  using UpdateActiveRole_frame [OF assms [unfolded clear_pending_config_def]] by simp_all

lemma set_pending_config_frame:
  assumes "set_pending_config G config cm = Inr cm'"
  shows "m_pb cm' = m_pb cm" and "m_leader_uuid cm' = m_leader_uuid cm"
    and "m_has_pending_config cm'" and "m_pending_config cm' = config" and "cache_ok cm'"
  using UpdateActiveRole_frame [OF assms [unfolded set_pending_config_def]] by simp_all

text \<open>What \<^verbatim>\<open>MergeCommittedConsensusStatePB\<close> leaves behind when it returns.\<close>

lemma Merge_Inr:
  assumes "MergeCommittedConsensusStatePB G cstate cm = Inr cm'"
  shows "m_pb cm' =
           (if get_int64 (pb_current_term (m_pb cm)) <s get_int64 (cs_current_term cstate)
            then (m_pb cm)\<lparr>pb_current_term := Some (get_int64 (cs_current_term cstate)),
                           pb_voted_for := None\<rparr>
            else m_pb cm)
           \<lparr>pb_committed_config := Some (get_config (cs_committed_config cstate))\<rparr>"
    and "m_leader_uuid cm' = []"
    and "\<not> m_has_pending_config cm'"
    and "cache_ok cm'"
proof -
  let ?new = "get_int64 (cs_current_term cstate)"
  let ?old = "get_int64 (pb_current_term (m_pb cm))"
  from assms obtain t cm1 cm2 cm3 where
    t: "current_term G cm = Inr t"
    and 1: "(if t <s ?new
             then and_then (set_current_term G ?new cm) (\<lambda>cm'. Inr (clear_voted_for cm'))
             else Inr cm) = Inr cm1"
    and 2: "set_leader_uuid G [] cm1 = Inr cm2"
    and 3: "set_committed_config G (get_config (cs_committed_config cstate)) cm2 = Inr cm3"
    and 4: "clear_pending_config G cm3 = Inr cm'"
    unfolding MergeCommittedConsensusStatePB_def and_then_Inr_iff by blast
  from t have t_eq: "t = ?old"
    by (auto simp: current_term_def and_then_Inr_iff)
  have pb1: "m_pb cm1 =
      (if ?old <s ?new then (m_pb cm)\<lparr>pb_current_term := Some ?new, pb_voted_for := None\<rparr>
       else m_pb cm)"
  proof (cases "?old <s ?new")
    case True
    with 1 t_eq obtain cm0 where "set_current_term G ?new cm = Inr cm0"
      and "cm1 = clear_voted_for cm0"
      by (auto simp: and_then_Inr_iff)
    with True show ?thesis
      by (auto dest!: set_current_term_Inr simp: clear_voted_for_def)
  next
    case False
    with 1 t_eq show ?thesis by simp
  qed
  note f2 = set_leader_uuid_frame [OF 2]
  note f3 = set_committed_config_frame [OF 3]
  note f4 = clear_pending_config_frame [OF 4]
  show "m_pb cm' =
      (if ?old <s ?new then (m_pb cm)\<lparr>pb_current_term := Some ?new, pb_voted_for := None\<rparr>
       else m_pb cm)\<lparr>pb_committed_config := Some (get_config (cs_committed_config cstate))\<rparr>"
    by (simp only: f4(1) f3(1) f2(1) pb1)
  show "m_leader_uuid cm' = []"
    by (simp only: f4(2) f3(2) f2(2))
  show "\<not> m_has_pending_config cm'" by (rule f4(3))
  show "cache_ok cm'" by (rule f4(4))
qed

lemma Merge_returns_release:
  assumes "\<not> DCHECK_IS_ON G"
  shows "\<exists>cm'. MergeCommittedConsensusStatePB G cstate cm = Inr cm'"
proof -
  let ?new = "get_int64 (cs_current_term cstate)"
  have t: "current_term G cm = Inr (get_int64 (pb_current_term (m_pb cm)))"
    using assms by (simp add: current_term_def)
  have "\<exists>cm1. (if get_int64 (pb_current_term (m_pb cm)) <s ?new
             then and_then (set_current_term G ?new cm) (\<lambda>cm'. Inr (clear_voted_for cm'))
             else Inr cm) = Inr cm1"
  proof (cases "get_int64 (pb_current_term (m_pb cm)) <s ?new")
    case True
    from set_current_term_returns [of G ?new cm] assms
    obtain c where "set_current_term G ?new cm = Inr c" by auto
    with True show ?thesis by simp
  next
    case False
    then show ?thesis by simp
  qed
  then obtain cm1 where 1: "(if get_int64 (pb_current_term (m_pb cm)) <s ?new
             then and_then (set_current_term G ?new cm) (\<lambda>cm'. Inr (clear_voted_for cm'))
             else Inr cm) = Inr cm1" ..
  obtain cm2 where 2: "set_leader_uuid G [] cm1 = Inr cm2"
    using UpdateActiveRole_release [OF assms] unfolding set_leader_uuid_def by blast
  obtain cm3 where 3: "set_committed_config G (get_config (cs_committed_config cstate)) cm2 = Inr cm3"
    using UpdateActiveRole_release [OF assms] unfolding set_committed_config_def Let_def
    by (metis (full_types))
  obtain cm4 where 4: "clear_pending_config G cm3 = Inr cm4"
    using UpdateActiveRole_release [OF assms] unfolding clear_pending_config_def by blast
  show ?thesis
    unfolding MergeCommittedConsensusStatePB_def and_then_Inr_iff
    using t 1 2 3 4 by blast
qed

section \<open>ConsensusMetadata: the claims\<close>

lemmas pack_simps =
  PackRoleAndTerm_def UnpackRole_def UnpackTerm_def kRoleMask_eq kTermMask_eq
  kPackedTermBits_eq kUnknownRolePacked_eq UNKNOWN_ROLE_def

lemmas cms_simps =
  current_term_def UpdateRoleAndTermCache_def set_current_term_def has_voted_for_def
  voted_for_def clear_voted_for_def set_voted_for_def CommittedConfig_def
  has_pending_config_def PendingConfig_def ActiveConfig_def leader_uuid_def active_role_def
  ToConsensusStatePB_def UpdateActiveRole_def set_committed_config_def
  clear_pending_config_def set_pending_config_def set_leader_uuid_def
  MergeCommittedConsensusStatePB_def GetRoleAndTerm_def ConsensusMetadata_new_def
  DCHECK_def CHECK_def has_def get_int64_def get_string_def get_config_def kMinimumTerm_def
  ConsensusMetadataPB_default_def RaftConfigPB_default_def word_sle_eq word_sless_alt

lemmas example_simps =
  G0_def fm0_def config1_def config2_def cstate7_def cstate2_def cm_fresh_def cm_term3_def
  cm3_def cm3_merged7_def cm3_merged2_def cm0_def cm0_config1_def cm5_def calls_5_def
  calls_sentinel_def
  cm_sentinel_def

lemma cm_fresh_eq: "cm_fresh = Inr cm0"
  by (simp add: example_simps cms_simps pack_simps)

lemma cm_term3_eq: "cm_term3 = Inr cm3"
  by (simp add: example_simps cms_simps pack_simps)

text \<open>
  C4. After \<^verbatim>\<open>MergeCommittedConsensusStatePB(other)\<close> returns, there is no pending
  config, the leader is the empty string, the committed config is that of \<^verbatim>\<open>other\<close>,
  and if the term of \<^verbatim>\<open>other\<close> was greater than the previous current term, then the
  current term is that of \<^verbatim>\<open>other\<close> and there is no vote.
\<close>

theorem MergeCommittedConsensusStatePB_post:
  assumes "MergeCommittedConsensusStatePB G other cm = Inr cm'"
  shows "\<not> has_pending_config cm' \<and> leader_uuid cm' = [] \<and>
         CommittedConfig G cm' = Inr (get_config (cs_committed_config other)) \<and>
         (get_int64 (pb_current_term (m_pb cm)) <s get_int64 (cs_current_term other) \<longrightarrow>
            current_term G cm' = Inr (get_int64 (cs_current_term other)) \<and>
            \<not> has_voted_for cm')"
  using Merge_Inr [OF assms]
  by (simp add: has_pending_config_def leader_uuid_def CommittedConfig_def current_term_def
      has_voted_for_def has_def get_config_def get_int64_def)

theorem MergeCommittedConsensusStatePB_post_witness:
  "MergeCommittedConsensusStatePB G0 cstate7 cm3 = Inr cm3_merged7 \<and>
   get_int64 (pb_current_term (m_pb cm3)) <s get_int64 (cs_current_term cstate7) \<and>
   \<not> has_pending_config cm3_merged7 \<and> leader_uuid cm3_merged7 = [] \<and>
   CommittedConfig G0 cm3_merged7 = Inr config2 \<and>
   current_term G0 cm3_merged7 = Inr 7 \<and> \<not> has_voted_for cm3_merged7"
proof -
  have h: "MergeCommittedConsensusStatePB G0 cstate7 cm3 = Inr cm3_merged7"
    by (simp add: example_simps cms_simps pack_simps)
  have g: "get_int64 (pb_current_term (m_pb cm3)) <s get_int64 (cs_current_term cstate7)"
    by (simp add: example_simps cms_simps)
  show ?thesis
    using h g MergeCommittedConsensusStatePB_post [OF h]
    by (simp add: cstate7_def get_config_def get_int64_def)
qed

text \<open>
  C10. When the term of \<^verbatim>\<open>other\<close> is at most the current term,
  \<^verbatim>\<open>MergeCommittedConsensusStatePB(other)\<close> leaves the current term and the vote
  (whether there is one, and which) as they were, and still clears the leader, replaces
  the committed config and clears the pending config.
\<close>

theorem MergeCommittedConsensusStatePB_lower_term:
  assumes "MergeCommittedConsensusStatePB G other cm = Inr cm'"
    and "get_int64 (cs_current_term other) \<le>s get_int64 (pb_current_term (m_pb cm))"
  shows "pb_current_term (m_pb cm') = pb_current_term (m_pb cm) \<and>
         pb_voted_for (m_pb cm') = pb_voted_for (m_pb cm) \<and>
         has_voted_for cm' = has_voted_for cm \<and>
         leader_uuid cm' = [] \<and>
         pb_committed_config (m_pb cm') = Some (get_config (cs_committed_config other)) \<and>
         \<not> has_pending_config cm'"
proof -
  from assms(2)
  have "\<not> get_int64 (pb_current_term (m_pb cm)) <s get_int64 (cs_current_term other)"
    by (simp add: word_sle_eq word_sless_alt)
  with Merge_Inr [OF assms(1)] show ?thesis
    by (simp add: has_pending_config_def leader_uuid_def has_voted_for_def)
qed

theorem MergeCommittedConsensusStatePB_lower_term_witness:
  "MergeCommittedConsensusStatePB G0 cstate2 cm3 = Inr cm3_merged2 \<and>
   get_int64 (cs_current_term cstate2) \<le>s get_int64 (pb_current_term (m_pb cm3)) \<and>
   pb_current_term (m_pb cm3_merged2) = Some 3 \<and>
   pb_voted_for (m_pb cm3_merged2) = Some ''p1'' \<and>
   leader_uuid cm3_merged2 = [] \<and>
   pb_committed_config (m_pb cm3_merged2) = Some config2 \<and>
   \<not> has_pending_config cm3_merged2"
proof -
  have h: "MergeCommittedConsensusStatePB G0 cstate2 cm3 = Inr cm3_merged2"
    by (simp add: example_simps cms_simps pack_simps)
  have g: "get_int64 (cs_current_term cstate2) \<le>s get_int64 (pb_current_term (m_pb cm3))"
    by (simp add: example_simps cms_simps)
  show ?thesis
    using h g MergeCommittedConsensusStatePB_lower_term [OF h g]
    by (simp add: cstate2_def cm3_def get_config_def)
qed

subsection \<open>The term through \<^verbatim>\<open>set_current_term\<close>\<close>

lemma set_current_term_precondition:
  assumes "kMinimumTerm \<le>s term"
  shows "\<exists>cm'. set_current_term G term cm = Inr cm' \<and> current_term G cm' = Inr term"
  using assms
  by (simp add: set_current_term_def UpdateRoleAndTermCache_eq current_term_def has_def
      get_int64_def)

text \<open>
  C6, as the code has it. \<^verbatim>\<open>set_current_term(t)\<close> checks only \<open>t >= kMinimumTerm\<close>
  and stores \<open>t\<close>: after every sequence of calls that satisfy this precondition, each
  call returns, the stored term is the argument of the last call, and it is not below
  \<open>kMinimumTerm\<close>. The call does not compare \<open>t\<close> with the term stored before.
\<close>

theorem set_current_term_stores_argument:
  assumes "\<forall>t \<in> set terms. kMinimumTerm \<le>s t" and "terms \<noteq> []"
  shows "\<exists>cm'. calls G (map Call_set_current_term terms) cm = Inr cm' \<and>
           current_term G cm' = Inr (last terms) \<and> kMinimumTerm \<le>s last terms"
  using assms
proof (induction terms arbitrary: cm)
  case Nil
  then show ?case by simp
next
  case (Cons t ts)
  from Cons.prems have "kMinimumTerm \<le>s t" by simp
  from set_current_term_precondition [OF this, of G cm]
  obtain cm1 where 1: "set_current_term G t cm = Inr cm1" and 2: "current_term G cm1 = Inr t"
    by blast
  show ?case
  proof (cases "ts = []")
    case True
    with 1 2 \<open>kMinimumTerm \<le>s t\<close> show ?thesis by simp
  next
    case False
    with Cons.IH [of cm1] Cons.prems 1 show ?thesis by simp
  qed
qed

theorem set_current_term_stores_argument_witness:
  "kMinimumTerm \<le>s 5 \<and> kMinimumTerm \<le>s 3 \<and>
   (\<exists>cm'. calls G0 (map Call_set_current_term [5, 3]) cm0 = Inr cm' \<and>
           current_term G0 cm' = Inr 3)"
proof -
  have a: "\<forall>t \<in> set [5, 3 :: int64_t]. kMinimumTerm \<le>s t"
    by (simp add: kMinimumTerm_def word_sle_eq)
  have b: "[5, 3 :: int64_t] \<noteq> []" by simp
  show ?thesis
    using a set_current_term_stores_argument [OF a b, of G0 cm0] by simp
qed

text \<open>
  The claim C6 as stated fails: on an object whose term is 5, the call
  \<^verbatim>\<open>set_current_term(3)\<close> satisfies its precondition and leaves the term 3.
\<close>

theorem set_current_term_decreases:
  "calls G0 calls_5 cm0 = Inr cm5 \<and> current_term G0 cm5 = Inr 5 \<and>
   kMinimumTerm \<le>s 3 \<and>
   and_then (set_current_term G0 3 cm5) (current_term G0) = Inr 3 \<and>
   \<not> (5 :: int64_t) \<le>s 3"
  by (simp add: example_simps cms_simps pack_simps)

subsection \<open>The cache after every mutator\<close>

lemma ConsensusMetadata_new_ok:
  assumes "ConsensusMetadata_new G fs_manager tablet_id peer_uuid = Inr cm"
  shows "cache_ok cm" and "role_ok cm"
  using assms
  by (auto simp: ConsensusMetadata_new_def UpdateRoleAndTermCache_eq cache_ok_def role_ok_def
      split: option.splits)

lemma UpdateActiveRole_role_ok:
  assumes "UpdateActiveRole G cm = Inr cm'"
    and "\<forall>peer leader config. GetConsensusRole G peer leader config \<in> known_roles \<union> {UNKNOWN_ROLE}"
  shows "role_ok cm'"
  using UpdateActiveRole_frame(6) [OF assms(1)] assms(2) unfolding role_ok_def by metis

lemma call_cache_ok:
  assumes "call G m cm = Inr cm'" and "cache_ok cm"
  shows "cache_ok cm'"
proof (cases m)
  case (Call_set_current_term t)
  with assms(1) have "set_current_term G t cm = Inr cm'" by simp
  from set_current_term_Inr [OF this] show ?thesis by (simp add: cache_ok_def)
next
  case (Call_set_voted_for uuid)
  with assms show ?thesis
    by (auto simp: set_voted_for_def and_then_Inr_iff cache_ok_def)
next
  case Call_clear_voted_for
  with assms show ?thesis
    by (auto simp: clear_voted_for_def cache_ok_def)
next
  case (Call_set_committed_config config)
  with assms(1) have "set_committed_config G config cm = Inr cm'" by simp
  from set_committed_config_frame(5) [OF this] assms(2) show ?thesis by simp
next
  case (Call_set_pending_config config)
  with assms(1) have "set_pending_config G config cm = Inr cm'" by simp
  then show ?thesis by (rule set_pending_config_frame(5))
next
  case Call_clear_pending_config
  with assms(1) have "clear_pending_config G cm = Inr cm'" by simp
  then show ?thesis by (rule clear_pending_config_frame(4))
next
  case (Call_set_leader_uuid uuid)
  with assms(1) have "set_leader_uuid G uuid cm = Inr cm'" by simp
  then show ?thesis by (rule set_leader_uuid_frame(5))
next
  case (Call_MergeCommittedConsensusStatePB cstate)
  with assms(1) have "MergeCommittedConsensusStatePB G cstate cm = Inr cm'" by simp
  then show ?thesis by (rule Merge_Inr(4))
qed

lemma call_role_ok:
  assumes "call G m cm = Inr cm'" and "role_ok cm"
    and G: "\<forall>peer leader config. GetConsensusRole G peer leader config \<in> known_roles \<union> {UNKNOWN_ROLE}"
  shows "role_ok cm'"
proof (cases m)
  case (Call_set_current_term t)
  with assms(1) have "set_current_term G t cm = Inr cm'" by simp
  from set_current_term_Inr [OF this] assms(2) show ?thesis by (simp add: role_ok_def)
next
  case (Call_set_voted_for uuid)
  with assms show ?thesis
    by (auto simp: set_voted_for_def and_then_Inr_iff role_ok_def)
next
  case Call_clear_voted_for
  with assms show ?thesis
    by (auto simp: clear_voted_for_def role_ok_def)
next
  case (Call_set_committed_config config)
  with assms(1) have s: "set_committed_config G config cm = Inr cm'" by simp
  show ?thesis
  proof (cases "m_has_pending_config cm")
    case True
    with s assms(2) show ?thesis
      by (auto simp: set_committed_config_def Let_def role_ok_def)
  next
    case False
    with s have "UpdateActiveRole G
        (cm\<lparr>m_pb := (m_pb cm)\<lparr>pb_committed_config := Some config\<rparr>\<rparr>) = Inr cm'"
      by (simp add: set_committed_config_def Let_def)
    then show ?thesis using G by (rule UpdateActiveRole_role_ok)
  qed
next
  case (Call_set_pending_config config)
  with assms(1) show ?thesis
    using G by (auto simp: set_pending_config_def intro: UpdateActiveRole_role_ok)
next
  case Call_clear_pending_config
  with assms(1) show ?thesis
    using G by (auto simp: clear_pending_config_def intro: UpdateActiveRole_role_ok)
next
  case (Call_set_leader_uuid uuid)
  with assms(1) show ?thesis
    using G by (auto simp: set_leader_uuid_def intro: UpdateActiveRole_role_ok)
next
  case (Call_MergeCommittedConsensusStatePB cstate)
  with assms(1) have "MergeCommittedConsensusStatePB G cstate cm = Inr cm'" by simp
  then obtain cm3 where "clear_pending_config G cm3 = Inr cm'"
    unfolding MergeCommittedConsensusStatePB_def and_then_Inr_iff by blast
  then show ?thesis
    using G by (auto simp: clear_pending_config_def intro: UpdateActiveRole_role_ok)
qed

lemma calls_cache_ok:
  "calls G ms cm = Inr cm' \<Longrightarrow> cache_ok cm \<Longrightarrow> cache_ok cm'"
proof (induction ms arbitrary: cm)
  case Nil
  then show ?case by simp
next
  case (Cons m ms)
  from Cons.prems(1) obtain cm1 where 1: "call G m cm = Inr cm1" and 2: "calls G ms cm1 = Inr cm'"
    by (auto simp: and_then_Inr_iff)
  from call_cache_ok [OF 1 Cons.prems(2)] Cons.IH [OF 2] show ?case by simp
qed

lemma calls_role_ok:
  assumes G: "\<forall>peer leader config. GetConsensusRole G peer leader config \<in> known_roles \<union> {UNKNOWN_ROLE}"
  shows "calls G ms cm = Inr cm' \<Longrightarrow> role_ok cm \<Longrightarrow> role_ok cm'"
proof (induction ms arbitrary: cm)
  case Nil
  then show ?case by simp
next
  case (Cons m ms)
  from Cons.prems(1) obtain cm1 where 1: "call G m cm = Inr cm1" and 2: "calls G ms cm1 = Inr cm'"
    by (auto simp: and_then_Inr_iff)
  from call_role_ok [OF 1 Cons.prems(2) G] Cons.IH [OF 2] show ?case by simp
qed

lemma unpackable_term_iff:
  "unat (t :: 64 word) < 2 ^ 61 - 1 \<longleftrightarrow> 0 \<le> sint t \<and> sint t \<le> 2 ^ 61 - 2"
proof
  assume a: "unat t < 2 ^ 61 - 1"
  then have lt: "unat t < 2 ^ 61" by simp
  have nonneg: "0 \<le> sint t"
  proof (rule ccontr)
    assume "\<not> 0 \<le> sint t"
    then have "sint t < 0" by simp
    from term_negative_unat [OF this] lt show False by simp
  qed
  have "int (unat t) < int (2 ^ 61 - 1)"
    using a by (simp only: of_nat_less_iff)
  then have "sint t \<le> 2 ^ 61 - 2"
    using sint_nonneg_uint [OF nonneg] by simp
  with nonneg show "0 \<le> sint t \<and> sint t \<le> 2 ^ 61 - 2" ..
next
  assume "0 \<le> sint t \<and> sint t \<le> 2 ^ 61 - 2"
  then have "0 \<le> sint t" and "sint t \<le> 2 ^ 61 - 2" by blast+
  then show "unat t < 2 ^ 61 - 1"
    by (rule term_in_range_unat')
qed

lemma GetRoleAndTerm_cache_ok:
  assumes "cache_ok cm"
  shows "GetRoleAndTerm cm =
     (let t = (case pb_current_term (m_pb cm) of None \<Rightarrow> - 1 | Some t \<Rightarrow> t)
      in if 0 \<le> sint t \<and> sint t \<le> 2 ^ 61 - 2
         then Inr (UnpackRole (PackRoleAndTerm (m_active_role cm) t), t)
         else Inl (LogFatal ''packed term is invalid''))"
  using assms
  by (simp only: GetRoleAndTerm_def cache_ok_def Let_def UnpackTerm_PackRoleAndTerm
      unpackable_term_iff)
    (simp add: and_then_def)

text \<open>
  C9. A freshly constructed object has no current term in its protobuf; the constructor
  packs the term -1, so the term field of the cache word is the out-of-range sentinel
  \<open>kTermMask\<close>, and \<^verbatim>\<open>GetRoleAndTerm()\<close> on it is fatal. This stays so after every
  sequence of mutator calls that leaves the protobuf without a current term, that is,
  until the first \<^verbatim>\<open>set_current_term\<close>.
\<close>

theorem fresh_GetRoleAndTerm_fatal:
  "\<exists>cm0. ConsensusMetadata_new G (Some fm) tablet_id peer_uuid = Inr cm0 \<and>
         pb_current_term (m_pb cm0) = None \<and>
         m_role_and_term_cache cm0 = PackRoleAndTerm UNKNOWN_ROLE (- 1) \<and>
         m_role_and_term_cache cm0 AND kTermMask = kTermMask \<and>
         GetRoleAndTerm cm0 = Inl (LogFatal ''packed term is invalid'') \<and>
         (\<forall>ms cm. calls G ms cm0 = Inr cm \<and> pb_current_term (m_pb cm) = None \<longrightarrow>
            m_role_and_term_cache cm AND kTermMask = kTermMask \<and>
            GetRoleAndTerm cm = Inl (LogFatal ''packed term is invalid''))"
proof -
  obtain cm0 where new: "ConsensusMetadata_new G (Some fm) tablet_id peer_uuid = Inr cm0"
    by (simp add: ConsensusMetadata_new_def UpdateRoleAndTermCache_eq)
  have fresh: "pb_current_term (m_pb cm0) = None"
    "m_role_and_term_cache cm0 = PackRoleAndTerm UNKNOWN_ROLE (- 1)"
    using new
    by (auto simp: ConsensusMetadata_new_def UpdateRoleAndTermCache_eq
        ConsensusMetadataPB_default_def)
  have minus_one: "\<not> unat (- 1 :: 64 word) < 2 ^ 61"
    by (rule term_negative_unat) simp
  have fatal: "m_role_and_term_cache cm AND kTermMask = kTermMask \<and>
      GetRoleAndTerm cm = Inl (LogFatal ''packed term is invalid'')"
    if "cache_ok cm" and "pb_current_term (m_pb cm) = None" for cm
  proof -
    from that have c: "m_role_and_term_cache cm = PackRoleAndTerm (m_active_role cm) (- 1)"
      by (simp add: cache_ok_def)
    have "m_role_and_term_cache cm AND kTermMask = kTermMask"
      using minus_one by (simp only: c term_field_PackRoleAndTerm if_False)
    then show ?thesis
      by (simp add: GetRoleAndTerm_def UnpackTerm_def)
  qed
  note ok0 = ConsensusMetadata_new_ok(1) [OF new]
  have "m_role_and_term_cache cm0 AND kTermMask = kTermMask \<and>
      GetRoleAndTerm cm0 = Inl (LogFatal ''packed term is invalid'')"
    using fatal [OF ok0 fresh(1)] .
  moreover have "\<forall>ms cm. calls G ms cm0 = Inr cm \<and> pb_current_term (m_pb cm) = None \<longrightarrow>
      m_role_and_term_cache cm AND kTermMask = kTermMask \<and>
      GetRoleAndTerm cm = Inl (LogFatal ''packed term is invalid'')"
    using fatal calls_cache_ok [OF _ ok0] by blast
  ultimately show ?thesis
    using new fresh by blast
qed

theorem fresh_GetRoleAndTerm_fatal_witness:
  "ConsensusMetadata_new G0 (Some fm0) ''t1'' ''p1'' = Inr cm0 \<and>
   GetRoleAndTerm cm0 = Inl (LogFatal ''packed term is invalid'') \<and>
   calls G0 [Call_set_committed_config config1] cm0 = Inr cm0_config1 \<and>
   pb_current_term (m_pb cm0_config1) = None \<and>
   GetRoleAndTerm cm0_config1 = Inl (LogFatal ''packed term is invalid'')"
proof -
  have a: "ConsensusMetadata_new G0 (Some fm0) ''t1'' ''p1'' = Inr cm0"
    by (simp add: example_simps cms_simps pack_simps)
  have b: "calls G0 [Call_set_committed_config config1] cm0 = Inr cm0_config1"
    by (simp add: example_simps cms_simps pack_simps)
  have c: "pb_current_term (m_pb cm0_config1) = None"
    by (simp add: cm0_config1_def)
  from fresh_GetRoleAndTerm_fatal [of G0 fm0 "''t1''" "''p1''"] a
  have d: "GetRoleAndTerm cm0 = Inl (LogFatal ''packed term is invalid'')"
    and e: "\<forall>ms cm. calls G0 ms cm0 = Inr cm \<and> pb_current_term (m_pb cm) = None \<longrightarrow>
      m_role_and_term_cache cm AND kTermMask = kTermMask \<and>
      GetRoleAndTerm cm = Inl (LogFatal ''packed term is invalid'')"
    by auto
  from e b c have "GetRoleAndTerm cm0_config1 = Inl (LogFatal ''packed term is invalid'')"
    by blast
  with a b c d show ?thesis by blast
qed

text \<open>
  C1, as the code has it. After every sequence of mutator calls on a constructed object
  that returns, the cache word is \<open>PackRoleAndTerm\<close> of the active role and of the
  current term, or of -1 when no term has been set. When the term is set and lies in
  \<open>[0, 2^61 - 2]\<close>, \<^verbatim>\<open>GetRoleAndTerm()\<close> returns the pair of \<^verbatim>\<open>active_role()\<close> and
  \<^verbatim>\<open>current_term()\<close> (the role being one that \<^verbatim>\<open>GetConsensusRole\<close> can return, a
  known role or \<^verbatim>\<open>UNKNOWN_ROLE\<close>); when no term is set, or the term is negative or at
  least \<open>2^61 - 1\<close>, \<^verbatim>\<open>GetRoleAndTerm()\<close> is fatal.
\<close>

theorem cache_after_mutators:
  assumes "ConsensusMetadata_new G fs_manager tablet_id peer_uuid = Inr cm0"
    and "calls G ms cm0 = Inr cm"
    and "\<forall>peer leader config.
           GetConsensusRole G peer leader config \<in> known_roles \<union> {UNKNOWN_ROLE}"
  shows "m_role_and_term_cache cm =
           PackRoleAndTerm (active_role cm)
             (case pb_current_term (m_pb cm) of None \<Rightarrow> - 1 | Some t \<Rightarrow> t) \<and>
         (\<forall>t. pb_current_term (m_pb cm) = Some t \<and> 0 \<le> sint t \<and> sint t \<le> 2 ^ 61 - 2 \<longrightarrow>
              current_term G cm = Inr t \<and> GetRoleAndTerm cm = Inr (active_role cm, t)) \<and>
         (pb_current_term (m_pb cm) = None \<or>
          (\<exists>t. pb_current_term (m_pb cm) = Some t \<and> (sint t < 0 \<or> 2 ^ 61 - 1 \<le> sint t)) \<longrightarrow>
            GetRoleAndTerm cm = Inl (LogFatal ''packed term is invalid''))"
proof -
  note new = ConsensusMetadata_new_ok [OF assms(1)]
  have c: "cache_ok cm"
    using calls_cache_ok [OF assms(2) new(1)] .
  have r: "m_active_role cm \<in> known_roles \<union> {UNKNOWN_ROLE}"
    using calls_role_ok [OF assms(3) assms(2) new(2)] by (simp add: role_ok_def)
  note g = GetRoleAndTerm_cache_ok [OF c]
  have 1: "m_role_and_term_cache cm =
      PackRoleAndTerm (active_role cm)
        (case pb_current_term (m_pb cm) of None \<Rightarrow> - 1 | Some t \<Rightarrow> t)"
    using c by (simp add: cache_ok_def active_role_def)
  have 2: "current_term G cm = Inr t \<and> GetRoleAndTerm cm = Inr (active_role cm, t)"
    if "pb_current_term (m_pb cm) = Some t \<and> 0 \<le> sint t \<and> sint t \<le> 2 ^ 61 - 2" for t
    using that g UnpackRole_PackRoleAndTerm [OF r, of t]
    by (simp add: current_term_def has_def get_int64_def active_role_def)
  have 3: "GetRoleAndTerm cm = Inl (LogFatal ''packed term is invalid'')"
    if "pb_current_term (m_pb cm) = None \<or>
        (\<exists>t. pb_current_term (m_pb cm) = Some t \<and> (sint t < 0 \<or> 2 ^ 61 - 1 \<le> sint t))"
    using that g by auto
  from 1 2 3 show ?thesis by blast
qed

theorem cache_after_mutators_witness:
  "ConsensusMetadata_new G0 (Some fm0) ''t1'' ''p1'' = Inr cm0 \<and>
   calls G0 calls_5 cm0 = Inr cm5 \<and>
   (\<forall>peer leader config.
      GetConsensusRole G0 peer leader config \<in> known_roles \<union> {UNKNOWN_ROLE}) \<and>
   m_role_and_term_cache cm5 = PackRoleAndTerm 1 5 \<and>
   pb_current_term (m_pb cm5) = Some 5 \<and> active_role cm5 = 1 \<and>
   current_term G0 cm5 = Inr 5 \<and> GetRoleAndTerm cm5 = Inr (1, 5)"
proof -
  have a: "ConsensusMetadata_new G0 (Some fm0) ''t1'' ''p1'' = Inr cm0"
    by (simp add: example_simps cms_simps pack_simps)
  have b: "calls G0 calls_5 cm0 = Inr cm5"
    by (simp add: example_simps cms_simps pack_simps)
  have c: "\<forall>peer leader config.
      GetConsensusRole G0 peer leader config \<in> known_roles \<union> {UNKNOWN_ROLE}"
    by (simp add: G0_def known_roles_def)
  have d: "pb_current_term (m_pb cm5) = Some 5" "active_role cm5 = 1"
    "0 \<le> sint (5 :: int64_t)" "sint (5 :: int64_t) \<le> 2 ^ 61 - 2"
    by (simp_all add: cm5_def active_role_def)
  show ?thesis
    using a b c d cache_after_mutators [OF a b c] by simp
qed

text \<open>
  The claim C1 as stated fails: after \<^verbatim>\<open>set_current_term(2^61 - 1)\<close>, which satisfies
  the precondition of the call, \<^verbatim>\<open>current_term()\<close> returns \<open>2^61 - 1\<close> and
  \<^verbatim>\<open>GetRoleAndTerm()\<close> returns no pair: it is fatal.
\<close>

theorem GetRoleAndTerm_differs_from_accessors:
  "kMinimumTerm \<le>s 0x1FFFFFFFFFFFFFFF \<and>
   and_then cm_sentinel (current_term G0) = Inr 0x1FFFFFFFFFFFFFFF \<and>
   and_then cm_sentinel (\<lambda>cm. Inr (active_role cm)) = Inr 0 \<and>
   and_then cm_sentinel GetRoleAndTerm = Inl (LogFatal ''packed term is invalid'')"
  by (simp add: example_simps cms_simps pack_simps)

section \<open>RowSetTree: the loop of \<^verbatim>\<open>Reset\<close>\<close>

lemma lookup_append_cell [simp]: "lookup (h @ c # h') (length h) = c"
  by (simp add: lookup_def)

lemma deleted_new_cell:
  "delete (length h) (assign (length h) f (h @ [Some e])) = h @ [None]"
  by (simp add: delete_def assign_def)

lemma assigned_new_cell:
  "assign (length h) g (assign (length h) f (h @ [Some e])) = h @ [Some (g (f e))]"
  by (simp add: assign_def)

lemma Reset_loop_Cons:
  "Reset_loop (rs # rowsets) entries unbounded h =
     (if is_unbounded rs then Reset_loop rowsets entries (unbounded @ [rs]) (h @ [None])
      else if bounds_failed rs then (fst (GetBounds rs), entries, unbounded, h @ [None])
      else Reset_loop rowsets (entries @ [length h]) unbounded (h @ [Some (entry_of rs)]))"
  by (simp add: Let_def new_RowSetWithBounds_def deleted_new_cell assigned_new_cell
      is_unbounded_def bounds_failed_def entry_of_def)

declare Reset_loop.simps(2) [simp del]

lemma dropWhile_stops: "dropWhile P xs = y # ys \<Longrightarrow> \<exists>x \<in> set xs. \<not> P x"
  by (metis dropWhile_eq_Nil_conv list.distinct(1))

text \<open>
  The loop, in one equation: over the rowsets before the first one that fails, it
  leaves one cell each and collects the pointers and the unbounded rowsets; at the
  first one that fails it stops with that status and a released cell.
\<close>

lemma Reset_loop_eq:
  "Reset_loop rowsets entries unbounded h =
     (let before = takeWhile (\<lambda>rs. \<not> bounds_failed rs) rowsets;
          entries' = entries @ ptrs_of (length h) before;
          unbounded' = unbounded @ filter is_unbounded before;
          h' = h @ map cell_of before
      in case dropWhile (\<lambda>rs. \<not> bounds_failed rs) rowsets of
           [] \<Rightarrow> (OK, entries', unbounded', h')
         | rs # _ \<Rightarrow> (fst (GetBounds rs), entries', unbounded', h' @ [None]))"
proof (induction rowsets arbitrary: entries unbounded h)
  case Nil
  then show ?case by simp
next
  case (Cons rs rowsets)
  consider (unbounded) "is_unbounded rs" "\<not> bounds_failed rs"
    | (failed) "\<not> is_unbounded rs" "bounds_failed rs"
    | (bounded) "\<not> is_unbounded rs" "\<not> bounds_failed rs"
    by (auto simp: is_unbounded_def bounds_failed_def)
  then show ?case
  proof cases
    case unbounded
    then show ?thesis
      by (auto simp: Reset_loop_Cons Cons.IH Let_def cell_of_def split: list.split
          dest: dropWhile_stops)
  next
    case failed
    then show ?thesis
      by (simp add: Reset_loop_Cons)
  next
    case bounded
    then show ?thesis
      by (auto simp: Reset_loop_Cons Cons.IH Let_def cell_of_def split: list.split
          dest: dropWhile_stops)
  qed
qed

lemma STLDeleteElements_append:
  "STLDeleteElements (ps @ qs) h = STLDeleteElements qs (STLDeleteElements ps h)"
  by (induction ps arbitrary: h) simp_all

lemma length_delete [simp]: "length (delete p h) = length h"
  by (simp add: delete_def)

lemma length_STLDeleteElements [simp]: "length (STLDeleteElements ps h) = length h"
  by (induction ps arbitrary: h) simp_all

lemma lookup_delete: "lookup (delete p h) q = (if q = p then None else lookup h q)"
  by (auto simp: lookup_def delete_def)

lemma lookup_STLDeleteElements:
  "lookup (STLDeleteElements ps h) q = (if q \<in> set ps then None else lookup h q)"
  by (induction ps arbitrary: h) (auto simp: lookup_delete)

lemma ptrs_of_range: "p \<in> set (ptrs_of n rowsets) \<Longrightarrow> n \<le> p \<and> p < n + length rowsets"
  by (induction rowsets arbitrary: n) (fastforce split: if_splits)+

lemma lookup_old_cell: "p < length h \<Longrightarrow> lookup (h @ h') p = lookup h p"
  by (simp add: lookup_def nth_append)

lemma lookup_beyond: "length h \<le> p \<Longrightarrow> lookup h p = None"
  by (simp add: lookup_def)

lemma lookup_new_cells:
  "lookup (h @ map cell_of rowsets) p =
     (if p < length h then lookup h p
      else if p < length h + length rowsets then cell_of (rowsets ! (p - length h))
      else None)"
  by (simp add: lookup_def nth_append)

lemma cell_of_ptr:
  "p \<in> set (ptrs_of n rowsets) \<Longrightarrow> cell_of (rowsets ! (p - n)) \<noteq> None"
proof (induction rowsets arbitrary: n)
  case Nil
  then show ?case by simp
next
  case (Cons rs rowsets)
  show ?case
  proof (cases "p = n")
    case True
    with Cons.prems show ?thesis
      using ptrs_of_range [of p "Suc n" rowsets]
      by (auto simp: cell_of_def split: if_splits)
  next
    case False
    with Cons.prems have in_rest: "p \<in> set (ptrs_of (Suc n) rowsets)"
      by (auto split: if_splits)
    from ptrs_of_range [OF this] have "Suc n \<le> p" by simp
    then have "(rs # rowsets) ! (p - n) = rowsets ! (p - Suc n)"
      by (simp add: nth_Cons')
    with Cons.IH [OF in_rest] show ?thesis by simp
  qed
qed

text \<open>The cells that the loop leaves are \<open>None\<close> except at the pointers it collects.\<close>

lemma released_except_entries:
  "lookup (STLDeleteElements (ptrs_of (length h) rowsets) (h @ map cell_of rowsets @ rest)) p =
     (if p < length h then lookup h p
      else if p < length h + length rowsets then None
      else lookup (h @ map cell_of rowsets @ rest) p)"
proof -
  let ?ps = "ptrs_of (length h) rowsets"
  have not_ptr: "p \<notin> set ?ps \<Longrightarrow> length h \<le> p \<Longrightarrow> p < length h + length rowsets \<Longrightarrow>
      lookup (h @ map cell_of rowsets @ rest) p = None"
  proof -
    assume a: "p \<notin> set ?ps" and b: "length h \<le> p" and c: "p < length h + length rowsets"
    have "\<And>n. p \<notin> set (ptrs_of n rowsets) \<Longrightarrow> n \<le> p \<Longrightarrow> p < n + length rowsets \<Longrightarrow>
        cell_of (rowsets ! (p - n)) = None"
    proof (induction rowsets)
      case Nil
      then show ?case by simp
    next
      case (Cons rs rowsets)
      show ?case
      proof (cases "p = n")
        case True
        with Cons.prems show ?thesis by (auto simp: cell_of_def split: if_splits)
      next
        case False
        with Cons.prems have le: "Suc n \<le> p" by simp
        from Cons.prems have "p \<notin> set (ptrs_of (Suc n) rowsets)"
          by (auto split: if_splits)
        moreover note le
        moreover from Cons.prems have "p < Suc n + length rowsets" by simp
        ultimately have "cell_of (rowsets ! (p - Suc n)) = None" by (rule Cons.IH)
        with le show ?thesis by (simp add: nth_Cons')
      qed
    qed
    moreover from b c have "p - length h < length rowsets" by arith
    ultimately show ?thesis
      using a b c by (simp add: lookup_def nth_append)
  qed
  show ?thesis
  proof (cases "p \<in> set ?ps")
    case True
    from ptrs_of_range [OF this] True show ?thesis
      by (simp add: lookup_STLDeleteElements)
  next
    case False
    then show ?thesis
      using not_ptr by (simp add: lookup_STLDeleteElements lookup_old_cell)
  qed
qed

section \<open>RowSetTree: \<^verbatim>\<open>Reset\<close>\<close>

lemma find_bounds_failed:
  "find bounds_failed rowsets =
     (case dropWhile (\<lambda>rs. \<not> bounds_failed rs) rowsets of [] \<Rightarrow> None | rs # _ \<Rightarrow> Some rs)"
  by (simp add: find_dropWhile comp_def)

lemma dropWhile_head: "dropWhile P xs = y # ys \<Longrightarrow> \<not> P y"
  by (metis dropWhile_eq_Cons_conv)

lemma Reset_new_succeeds:
  assumes "find bounds_failed rowsets = None"
  shows "Reset RowSetTree_new rowsets h =
     Inr (OK,
          \<lparr>t_initted = True, t_entries = ptrs_of (length h) rowsets,
           t_unbounded_rowsets = filter is_unbounded rowsets,
           t_tree = Some (IntervalTree (ptrs_of (length h) rowsets)),
           t_all_rowsets = rowsets\<rparr>,
          h @ map cell_of rowsets)"
proof -
  from assms have d: "dropWhile (\<lambda>rs. \<not> bounds_failed rs) rowsets = []"
    by (simp add: find_bounds_failed split: list.splits)
  then have "\<forall>rs \<in> set rowsets. \<not> bounds_failed rs"
    by (simp add: dropWhile_eq_Nil_conv)
  then have t: "takeWhile (\<lambda>rs. \<not> bounds_failed rs) rowsets = rowsets"
    by (simp add: takeWhile_eq_all_conv)
  show ?thesis
    by (simp add: Reset_def CHECK_def RowSetTree_new_def Reset_loop_eq d t ok_def Let_def)
qed

lemma Reset_new_fails:
  assumes "find bounds_failed rowsets = Some rs"
  shows "\<exists>h'. Reset RowSetTree_new rowsets h = Inr (fst (GetBounds rs), RowSetTree_new, h') \<and>
           (\<forall>p. lookup h' p = lookup h p) \<and> \<not> ok (fst (GetBounds rs))"
proof -
  let ?before = "takeWhile (\<lambda>rs. \<not> bounds_failed rs) rowsets"
  from assms obtain rest where d: "dropWhile (\<lambda>rs. \<not> bounds_failed rs) rowsets = rs # rest"
    by (auto simp: find_bounds_failed split: list.splits)
  from dropWhile_head [OF d] have bad: "bounds_failed rs" by simp
  then have nok: "\<not> ok (fst (GetBounds rs))"
    by (simp add: bounds_failed_def)
  let ?h' = "STLDeleteElements (ptrs_of (length h) ?before) (h @ map cell_of ?before @ [None])"
  have r: "Reset RowSetTree_new rowsets h = Inr (fst (GetBounds rs), RowSetTree_new, ?h')"
    using nok by (simp add: Reset_def CHECK_def RowSetTree_new_def Reset_loop_eq d Let_def)
  have "lookup ?h' p = lookup h p" for p
  proof -
    have "length h + length ?before \<le> p \<Longrightarrow> lookup (h @ map cell_of ?before @ [None]) p = None"
      by (auto simp: lookup_def nth_append nth_Cons')
    then show ?thesis
      by (auto simp: released_except_entries lookup_beyond)
  qed
  with r nok show ?thesis by blast
qed

text \<open>
  C8. \<^verbatim>\<open>Reset\<close> on a new tree returns. When no rowset's \<^verbatim>\<open>GetBounds\<close> returns an
  error other than NotSupported, it returns OK and the rowsets whose \<^verbatim>\<open>GetBounds\<close>
  returns NotSupported are exactly the unbounded rowsets of the tree. When some
  rowset's \<^verbatim>\<open>GetBounds\<close> returns another error, \<^verbatim>\<open>Reset\<close> returns the error of the
  first such rowset, the tree is as it was (it is not initialised), and every cell of
  the store is as before the call: every entry allocated by the call is released.
\<close>

theorem Reset_GetBounds_errors:
  "\<exists>s t h'. Reset RowSetTree_new rowsets h = Inr (s, t, h') \<and>
     (find bounds_failed rowsets = None \<longrightarrow>
        s = OK \<and> t_initted t \<and>
        t_unbounded_rowsets t =
          filter (\<lambda>rs. IsNotSupported (fst (GetBounds rs))) rowsets) \<and>
     (\<forall>rs. find bounds_failed rowsets = Some rs \<longrightarrow>
        s = fst (GetBounds rs) \<and> \<not> ok s \<and> t = RowSetTree_new \<and> \<not> t_initted t \<and>
        (\<forall>p. lookup h' p = lookup h p))"
proof (cases "find bounds_failed rowsets")
  case None
  have "filter is_unbounded rowsets = filter (\<lambda>rs. IsNotSupported (fst (GetBounds rs))) rowsets"
    by (simp add: is_unbounded_def [abs_def])
  with None Reset_new_succeeds [OF None, of h] show ?thesis by simp
next
  case (Some rs)
  from Reset_new_fails [OF Some, of h] Some show ?thesis
    by (auto simp: RowSetTree_new_def)
qed

lemma Reset_example:
  "Reset RowSetTree_new [R1, U0, R2, R3] [] = Inr (OK, tree_R1_U_R2_R3, heap_R1_U_R2_R3)"
  by (simp add: Reset_def CHECK_def RowSetTree_new_def Reset_loop_Cons is_unbounded_def
      bounds_failed_def entry_of_def R1_def R2_def R3_def U0_def ok_def
      tree_R1_U_R2_R3_def heap_R1_U_R2_R3_def)

theorem Reset_GetBounds_errors_witness:
  "find bounds_failed [R1, U0, R2, R3] = None \<and>
   Reset RowSetTree_new [R1, U0, R2, R3] [] = Inr (OK, tree_R1_U_R2_R3, heap_R1_U_R2_R3) \<and>
   t_unbounded_rowsets tree_R1_U_R2_R3 = [U0] \<and>
   find bounds_failed [R1, U0, R_bad, R2] = Some R_bad \<and>
   (\<exists>h'. Reset RowSetTree_new [R1, U0, R_bad, R2] [] =
            Inr (Error Corruption ''bad block'', RowSetTree_new, h') \<and>
          (\<forall>p. lookup h' p = lookup [] p))"
proof -
  have a: "find bounds_failed [R1, U0, R2, R3] = None"
    by (simp add: bounds_failed_def R1_def R2_def R3_def U0_def ok_def)
  note b = Reset_example
  have c: "find bounds_failed [R1, U0, R_bad, R2] = Some R_bad"
    by (simp add: bounds_failed_def R1_def R2_def R_bad_def U0_def ok_def)
  have d: "fst (GetBounds R_bad) = Error Corruption ''bad block''"
    by (simp add: R_bad_def)
  from Reset_GetBounds_errors [of "[R1, U0, R_bad, R2]" "[]"] c d
  have e: "\<exists>h'. Reset RowSetTree_new [R1, U0, R_bad, R2] [] =
            Inr (Error Corruption ''bad block'', RowSetTree_new, h') \<and>
          (\<forall>p. lookup h' p = lookup [] p)"
    by auto
  from Reset_GetBounds_errors [of "[R1, U0, R2, R3]" "[]"] a b
  have "t_unbounded_rowsets tree_R1_U_R2_R3 =
      filter (\<lambda>rs. IsNotSupported (fst (GetBounds rs))) [R1, U0, R2, R3]"
    by auto
  then have f: "t_unbounded_rowsets tree_R1_U_R2_R3 = [U0]"
    by (simp add: R1_def R2_def R3_def U0_def)
  from a b c e f show ?thesis by blast
qed

section \<open>RowSetTree: the queries\<close>

lemma Slice_compare_le: "Slice_compare a b \<le> 0 \<longleftrightarrow> a \<le> b"
  by (induction a b rule: Slice_compare.induct) auto

lemma contains_point_iff:
  "contains_point e K \<longleftrightarrow> min_key e \<le> K \<and> K \<le> max_key e"
  by (simp add: contains_point_def compare_def get_left_def get_right_def Slice_compare_le)

lemma intervals_meet_iff:
  fixes a b c d :: "'a :: linorder"
  shows "{a..b} \<inter> {c..d} \<noteq> {} \<longleftrightarrow> a \<le> b \<and> c \<le> d \<and> a \<le> d \<and> c \<le> b"
proof
  assume "{a..b} \<inter> {c..d} \<noteq> {}"
  then have "\<exists>x. x \<in> {a..b} \<and> x \<in> {c..d}" by blast
  then obtain x where "a \<le> x" "x \<le> b" "c \<le> x" "x \<le> d"
    unfolding atLeastAtMost_iff by blast
  then show "a \<le> b \<and> c \<le> d \<and> a \<le> d \<and> c \<le> b"
    by (meson order_trans)
next
  assume r: "a \<le> b \<and> c \<le> d \<and> a \<le> d \<and> c \<le> b"
  then have "max a c \<in> {a..b}" and "max a c \<in> {c..d}"
    unfolding atLeastAtMost_iff by (auto simp: max_def)
  then show "{a..b} \<inter> {c..d} \<noteq> {}" by blast
qed

lemma intersects_iff:
  "intersects e q \<longleftrightarrow> {min_key e..max_key e} \<inter> {min_key q..max_key q} \<noteq> {}"
  unfolding intervals_meet_iff
  by (auto simp: intersects_def compare_def get_left_def get_right_def Slice_compare_le)

lemma map_fatal_entries:
  "map_fatal (deref (h @ map cell_of rowsets @ rest)) (ptrs_of (length h) rowsets) =
     Inr (map entry_of (filter (\<lambda>rs. \<not> is_unbounded rs) rowsets))"
proof (induction rowsets arbitrary: h)
  case Nil
  then show ?case by simp
next
  case (Cons rs rowsets)
  have step: "map_fatal (deref (h @ cell_of rs # map cell_of rowsets @ rest))
        (ptrs_of (Suc (length h)) rowsets) =
      Inr (map entry_of (filter (\<lambda>rs. \<not> is_unbounded rs) rowsets))"
    using Cons.IH [of "h @ [cell_of rs]"] by simp
  show ?case
  proof (cases "is_unbounded rs")
    case True
    with step show ?thesis by simp
  next
    case False
    then have "deref (h @ cell_of rs # map cell_of rowsets @ rest) (length h) = Inr (entry_of rs)"
      by (simp add: deref_def cell_of_def)
    with False step show ?thesis by simp
  qed
qed

lemma map_fatal_selected:
  "map_fatal f ps = Inr es \<Longrightarrow>
   map_fatal f (map fst (filter (\<lambda>(p, e). P e) (zip ps es))) = Inr (filter P es)"
proof (induction ps arbitrary: es)
  case Nil
  then show ?case by simp
next
  case (Cons p ps)
  from Cons.prems obtain e es' where e: "f p = Inr e" and es': "map_fatal f ps = Inr es'"
    and es: "es = e # es'"
    by (auto simp: and_then_Inr_iff)
  from Cons.IH [OF es'] e es show ?case by simp
qed

lemma filter_map_entry_of:
  "map rowset (filter P (map entry_of (filter (\<lambda>rs. \<not> is_unbounded rs) rowsets))) =
     map rs_get (filter (\<lambda>rs. \<not> is_unbounded rs \<and> P (entry_of rs)) rowsets)"
  by (induction rowsets) (simp_all add: entry_of_def)

lemma mset_unbounded_and_selected:
  "mset (map rs_get (filter is_unbounded rowsets) @
         map rs_get (filter (\<lambda>rs. \<not> is_unbounded rs \<and> P rs) rowsets)) =
   mset (map rs_get (filter (\<lambda>rs. is_unbounded rs \<or> P rs) rowsets))"
  by (induction rowsets) auto

text \<open>What the two queries return on the tree that a successful \<^verbatim>\<open>Reset\<close> builds.\<close>

lemma FindRowSetsWithKeyInRange_eq:
  assumes "find bounds_failed S = None"
    and "Reset RowSetTree_new S h = Inr (s, t, h')"
  shows "FindRowSetsWithKeyInRange dbg t h' K out =
     Inr (out @ map rs_get (filter is_unbounded S) @
          map rs_get (filter (\<lambda>rs. \<not> is_unbounded rs \<and> contains_point (entry_of rs) K) S))"
proof -
  let ?ps = "ptrs_of (length h) S"
  let ?es = "map entry_of (filter (\<lambda>rs. \<not> is_unbounded rs) S)"
  from assms(2) Reset_new_succeeds [OF assms(1), of h]
  have t: "t = \<lparr>t_initted = True, t_entries = ?ps, t_unbounded_rowsets = filter is_unbounded S,
                t_tree = Some (IntervalTree ?ps), t_all_rowsets = S\<rparr>"
    and h': "h' = h @ map cell_of S"
    by simp_all
  have es: "map_fatal (deref h') ?ps = Inr ?es"
    using map_fatal_entries [of h S "[]"] by (simp add: h')
  note sel = map_fatal_selected [OF es, of "\<lambda>e. contains_point e K"]
  show ?thesis
    by (simp add: FindRowSetsWithKeyInRange_def FindContainingPoint_def t es sel
        filter_map_entry_of)
qed

lemma FindRowSetsIntersectingInterval_eq:
  assumes "find bounds_failed S = None"
    and "Reset RowSetTree_new S h = Inr (s, t, h')"
  shows "FindRowSetsIntersectingInterval dbg t h' L U out =
     Inr (out @ map rs_get (filter is_unbounded S) @
          map rs_get (filter (\<lambda>rs. \<not> is_unbounded rs \<and>
            intersects (entry_of rs) \<lparr>rowset = 0, min_key = L, max_key = U\<rparr>) S))"
proof -
  let ?ps = "ptrs_of (length h) S"
  let ?es = "map entry_of (filter (\<lambda>rs. \<not> is_unbounded rs) S)"
  let ?q = "\<lparr>rowset = 0, min_key = L, max_key = U\<rparr>"
  from assms(2) Reset_new_succeeds [OF assms(1), of h]
  have t: "t = \<lparr>t_initted = True, t_entries = ?ps, t_unbounded_rowsets = filter is_unbounded S,
                t_tree = Some (IntervalTree ?ps), t_all_rowsets = S\<rparr>"
    and h': "h' = h @ map cell_of S"
    by simp_all
  have es: "map_fatal (deref h') ?ps = Inr ?es"
    using map_fatal_entries [of h S "[]"] by (simp add: h')
  note sel = map_fatal_selected [OF es, of "\<lambda>e. intersects e ?q"]
  show ?thesis
    by (simp add: FindRowSetsIntersectingInterval_def FindIntersectingInterval_def t es sel
        filter_map_entry_of Let_def)
qed

lemma Reset_OK_no_failure:
  assumes "Reset RowSetTree_new S h = Inr (OK, t, h')"
  shows "find bounds_failed S = None"
proof (cases "find bounds_failed S")
  case None
  then show ?thesis .
next
  case (Some rs)
  from Reset_new_fails [OF Some, of h] assms show ?thesis
    by (auto simp: ok_def)
qed

text \<open>
  C5. On a tree that \<^verbatim>\<open>Reset\<close> has built from the rowsets \<open>S\<close>,
  \<^verbatim>\<open>FindRowSetsWithKeyInRange(K)\<close> returns and appends exactly the rowsets of \<open>S\<close>
  that are unbounded or whose stored bounds \<open>[min_key, max_key]\<close> contain \<open>K\<close>, and
  \<^verbatim>\<open>FindRowSetsIntersectingInterval(L, U)\<close> returns and appends exactly the rowsets of
  \<open>S\<close> that are unbounded or whose stored bounds meet the closed interval \<open>[L, U]\<close>,
  each as often as it occurs in \<open>S\<close>. The order on keys is the lexicographic order on
  byte sequences.
\<close>

theorem queries_report_exactly:
  assumes "Reset RowSetTree_new S h = Inr (OK, t, h')"
  shows "(\<exists>found. FindRowSetsWithKeyInRange dbg t h' K out = Inr (out @ found) \<and>
            mset found =
              mset (map rs_get (filter (\<lambda>rs. is_unbounded rs \<or>
                (min_key (entry_of rs) \<le> K \<and> K \<le> max_key (entry_of rs))) S))) \<and>
         (\<exists>found. FindRowSetsIntersectingInterval dbg t h' L U out = Inr (out @ found) \<and>
            mset found =
              mset (map rs_get (filter (\<lambda>rs. is_unbounded rs \<or>
                {min_key (entry_of rs)..max_key (entry_of rs)} \<inter> {L..U} \<noteq> {}) S)))"
proof -
  note nf = Reset_OK_no_failure [OF assms]
  have 1: "\<exists>found. FindRowSetsWithKeyInRange dbg t h' K out = Inr (out @ found) \<and>
      mset found = mset (map rs_get (filter (\<lambda>rs. is_unbounded rs \<or>
        (min_key (entry_of rs) \<le> K \<and> K \<le> max_key (entry_of rs))) S))"
    unfolding FindRowSetsWithKeyInRange_eq [OF nf assms]
    using mset_unbounded_and_selected [of S "\<lambda>rs. contains_point (entry_of rs) K"]
    by (simp add: contains_point_iff)
  have 2: "\<exists>found. FindRowSetsIntersectingInterval dbg t h' L U out = Inr (out @ found) \<and>
      mset found = mset (map rs_get (filter (\<lambda>rs. is_unbounded rs \<or>
        {min_key (entry_of rs)..max_key (entry_of rs)} \<inter> {L..U} \<noteq> {}) S))"
    unfolding FindRowSetsIntersectingInterval_eq [OF nf assms]
    using mset_unbounded_and_selected
      [of S "\<lambda>rs. intersects (entry_of rs) \<lparr>rowset = 0, min_key = L, max_key = U\<rparr>"]
    by (simp add: intersects_iff)
  from 1 2 show ?thesis ..
qed

theorem queries_report_exactly_witness:
  "Reset RowSetTree_new [R1, U0, R2, R3] [] = Inr (OK, tree_R1_U_R2_R3, heap_R1_U_R2_R3) \<and>
   FindRowSetsWithKeyInRange True tree_R1_U_R2_R3 heap_R1_U_R2_R3 [98] [] =
     Inr [100, 101, 102] \<and>
   mset [100, 101, 102 :: nat] =
     mset (map rs_get (filter (\<lambda>rs. is_unbounded rs \<or>
       (min_key (entry_of rs) \<le> [98] \<and> [98] \<le> max_key (entry_of rs))) [R1, U0, R2, R3])) \<and>
   FindRowSetsIntersectingInterval True tree_R1_U_R2_R3 heap_R1_U_R2_R3 [99] [101] [] =
     Inr [100, 101, 102, 103] \<and>
   mset [100, 101, 102, 103 :: nat] =
     mset (map rs_get (filter (\<lambda>rs. is_unbounded rs \<or>
       {min_key (entry_of rs)..max_key (entry_of rs)} \<inter> {[99]..[101]} \<noteq> {})
       [R1, U0, R2, R3]))"
proof -
  note r = Reset_example
  have p: "FindRowSetsWithKeyInRange True tree_R1_U_R2_R3 heap_R1_U_R2_R3 [98] [] =
      Inr [100, 101, 102]"
    by (simp add: FindRowSetsWithKeyInRange_def FindContainingPoint_def deref_def lookup_def
        contains_point_def compare_def get_left_def get_right_def
        tree_R1_U_R2_R3_def heap_R1_U_R2_R3_def U0_def)
  have q: "FindRowSetsIntersectingInterval True tree_R1_U_R2_R3 heap_R1_U_R2_R3 [99] [101] [] =
      Inr [100, 101, 102, 103]"
    by (simp add: FindRowSetsIntersectingInterval_def FindIntersectingInterval_def deref_def
        lookup_def intersects_def compare_def get_left_def get_right_def
        tree_R1_U_R2_R3_def heap_R1_U_R2_R3_def U0_def)
  from queries_report_exactly [OF r, of True "[98]" "[]" "[99]" "[101]"] p q
  show ?thesis using r by simp
qed

section \<open>Flush\<close>

text \<open>
  C7. When \<^verbatim>\<open>VerifyRaftConfig\<close> fails on the committed config, \<^verbatim>\<open>Flush\<close> in either
  mode, unless the fault-injection hook ends the process before, returns the error of
  \<^verbatim>\<open>VerifyRaftConfig\<close> with the message \<^verbatim>\<open>Invalid config in ConsensusMetadata, cannot
  flush to disk\<close> put before its own. The file system is as before, whatever the
  operations on it would do: none of them is reached. Only the flush counter of the
  object has changed.
\<close>

theorem Flush_invalid_config:
  assumes "\<not> ok (VerifyRaftConfig G (get_config (pb_committed_config (m_pb cm))))"
  shows "\<exists>code msg.
           VerifyRaftConfig G (get_config (pb_committed_config (m_pb cm))) = Error code msg \<and>
           Flush G flags env fault flush_mode cm fs =
             (if fault then Inl FaultInjected
              else Inr (Error code
                          (''Invalid config in ConsensusMetadata, cannot flush to disk'' @
                           '': '' @ msg),
                        cm\<lparr>m_flush_count_for_tests := m_flush_count_for_tests cm + 1\<rparr>,
                        fs))"
proof (cases "VerifyRaftConfig G (get_config (pb_committed_config (m_pb cm)))")
  case OK
  with assms show ?thesis by (simp add: ok_def)
next
  case (Error code msg)
  then show ?thesis
    by (simp add: Flush_def Let_def ok_def)
qed

theorem Flush_invalid_config_witness:
  "\<not> ok (VerifyRaftConfig G0 (get_config (pb_committed_config (m_pb cm0)))) \<and>
   Flush G0 flags0 env0 False NO_OVERWRITE cm0 [] =
     Inr (Error InvalidArgument
            ''Invalid config in ConsensusMetadata, cannot flush to disk: no peers'',
          cm0\<lparr>m_flush_count_for_tests := 1\<rparr>, []) \<and>
   Flush G0 flags0 env0 False OVERWRITE cm0 [] =
     Inr (Error InvalidArgument
            ''Invalid config in ConsensusMetadata, cannot flush to disk: no peers'',
          cm0\<lparr>m_flush_count_for_tests := 1\<rparr>, [])"
proof -
  have a: "\<not> ok (VerifyRaftConfig G0 (get_config (pb_committed_config (m_pb cm0))))"
    by (simp add: G0_def cm0_def ConsensusMetadataPB_default_def get_config_def
        RaftConfigPB_default_def ok_def)
  have b: "VerifyRaftConfig G0 (get_config (pb_committed_config (m_pb cm0))) =
      Error InvalidArgument ''no peers''"
    by (simp add: G0_def cm0_def ConsensusMetadataPB_default_def get_config_def
        RaftConfigPB_default_def)
  have c: "m_flush_count_for_tests cm0 = 0"
    by (simp add: cm0_def)
  from Flush_invalid_config [OF a, of flags0 env0 False NO_OVERWRITE "[]"]
    Flush_invalid_config [OF a, of flags0 env0 False OVERWRITE "[]"] a b c
  show ?thesis by simp
qed

text \<open>With a valid config the same call does write the file.\<close>

lemma Flush_valid_config_example:
  "Flush G0 flags0 env0 False OVERWRITE cm5 [] =
     Inr (OK, cm5\<lparr>m_flush_count_for_tests := 1, m_on_disk_size := 42\<rparr>,
          [''/data/consensus-meta/t1''])"
  by (simp add: Flush_def UpdateOnDiskSize_def GetConsensusMetadataPath_def Let_def ok_def
      G0_def flags0_def env0_def cm5_def fm0_def config1_def get_config_def)

end
